theory Spec2Isabelle
  imports Main
begin

section \<open>Data model (main.go)\<close>

text \<open>
  \<^verbatim>\<open>type Product struct { ID int; Name string; Price int }\<close>.
  No arithmetic is done on the fields, so Go's 64-bit \<^verbatim>\<open>int\<close> is \<open>int\<close>; the
  range of \<^verbatim>\<open>int\<close> is written out where a value enters the program (\<open>Atoi\<close>).
\<close>

record Product =
  ID :: int
  Name :: string
  Price :: int

text \<open>The simulated database: \<^verbatim>\<open>fakeProductDB = map[int]*Product{...}\<close>.\<close>

definition fakeProductDB :: "int \<rightharpoonup> Product" where
  "fakeProductDB =
     [1 \<mapsto> \<lparr>ID = 1, Name = ''Apple'', Price = 100\<rparr>,
      2 \<mapsto> \<lparr>ID = 2, Name = ''Banana'', Price = 50\<rparr>,
      3 \<mapsto> \<lparr>ID = 3, Name = ''Cherry'', Price = 200\<rparr>]"

definition redisProductKeyPrefix :: string where
  "redisProductKeyPrefix = ''product:''"

text \<open>\<^verbatim>\<open>redisProductTTL = 30 * time.Second\<close>; the clock of the model counts seconds.\<close>

definition redisProductTTL :: nat where
  "redisProductTTL = 30"

definition popularThreshold :: int where
  "popularThreshold = 2"

definition scanCount :: nat where
  "scanCount = 100"

section \<open>Decimal rendering and parsing\<close>

text \<open>\<^verbatim>\<open>fmt.Sprintf("%d", id)\<close>: the decimal digits, with a minus sign for a negative number.\<close>

definition digit_char :: "nat \<Rightarrow> char" where
  "digit_char n = char_of (48 + n mod 10)"

function digits :: "nat \<Rightarrow> string" where
  "digits n = (if n < 10 then [digit_char n] else digits (n div 10) @ [digit_char (n mod 10)])"
  by pat_completeness auto
termination
  by (relation "measure (\<lambda>n. n)") auto

definition show_int :: "int \<Rightarrow> string" where
  "show_int i = (if i < 0 then CHR ''-'' # digits (nat (- i)) else digits (nat i))"

definition is_digit :: "char \<Rightarrow> bool" where
  "is_digit c = (48 \<le> (of_char c :: nat) \<and> (of_char c :: nat) \<le> 57)"

definition digit_val :: "char \<Rightarrow> nat" where
  "digit_val c = of_char c - 48"

fun dec_val :: "nat \<Rightarrow> string \<Rightarrow> nat" where
  "dec_val acc [] = acc"
| "dec_val acc (c # cs) = dec_val (10 * acc + digit_val c) cs"

text \<open>
  \<^verbatim>\<open>strconv.Atoi\<close>: an optional sign, then at least one decimal digit and nothing else;
  a value outside the 64-bit range is an error.
\<close>

definition Atoi :: "string \<Rightarrow> int option" where
  "Atoi s =
     (let neg = (s \<noteq> [] \<and> hd s = CHR ''-'');
          ds = (if s \<noteq> [] \<and> (hd s = CHR ''-'' \<or> hd s = CHR ''+'') then tl s else s)
      in if ds = [] \<or> \<not> list_all is_digit ds then None
         else let n = int (dec_val 0 ds)
              in if neg then (if n \<le> 2 ^ 63 then Some (- n) else None)
                 else (if n < 2 ^ 63 then Some n else None))"

text \<open>Utility - build Redis key for a product, and the key of its hit count.\<close>

definition redisProductKey :: "int \<Rightarrow> string" where
  "redisProductKey pid = redisProductKeyPrefix @ show_int pid"

definition redisProductHitsKey :: "int \<Rightarrow> string" where
  "redisProductHitsKey pid = redisProductKeyPrefix @ show_int pid @ '':hits''"

section \<open>The JSON codec\<close>

text \<open>
  \<^verbatim>\<open>json.Marshal\<close>, \<^verbatim>\<open>json.Unmarshal\<close> and \<^verbatim>\<open>json.Decoder.Decode\<close> belong to Go's
  standard library, not to this repository: they are parameters of the model. A value of
  \<open>None\<close> is the library's error return.
\<close>

record json_codec =
  Marshal :: "Product \<Rightarrow> string"
  Unmarshal :: "string \<Rightarrow> Product option"
  Decode :: "string \<Rightarrow> Product option"

section \<open>The cache backend\<close>

text \<open>
  Modelled from the spec: the cache backend (a Redis server reached through go-redis) is
  an external service; section 6 of the specification gives the interface the handlers
  need (get, set-with-ttl, delete, increment creating at 1 if absent, expire, ttl-query
  with no-expiry and absent, scan by prefix with a cursor whose value 0 is terminal).

  The keyspace is a table of slots in insertion order; a deleted key leaves an empty slot
  behind, so that the position a scan cursor stands for does not move when keys are
  deleted during the scan. An entry holds its string value and, when it has an
  expiration, the clock reading at which it expires. An entry whose expiration has passed
  is logically expired: every command treats it as absent, except that a scan still
  lists it and a ttl-query reports its non-positive remaining time (section 4.3: expired
  but not yet reaped).
\<close>

record entry =
  val :: string
  deadline :: "nat option"

type_synonym keyspace = "(string \<times> entry option) list"

datatype redis_cmd =
    GET string
  | INCR string
  | EXPIRE string nat
  | SET string string nat
  | DEL string
  | TTL string
  | SCAN nat string nat

datatype event = Issued redis_cmd | DBRead int | DBWrite int Product

text \<open>
  The world the handlers run in: the database, the keyspace of the cache, the clock (in
  seconds), the cache commands that are going to fail (\<open>faults\<close>: one flag for each
  command to come, in the order of issue, \<open>True\<close> for a command that fails; none fails
  once the list is used up), and the history of what the program has done.
\<close>

record world =
  db :: "int \<rightharpoonup> Product"
  cache :: keyspace
  clock :: nat
  faults :: "bool list"
  trace :: "event list"

datatype 'a reply = Val 'a | RNil | Err

definition lookup :: "keyspace \<Rightarrow> string \<Rightarrow> entry option" where
  "lookup c k = (case map_of c k of Some (Some e) \<Rightarrow> Some e | _ \<Rightarrow> None)"

definition live :: "nat \<Rightarrow> entry \<Rightarrow> bool" where
  "live now e = (case deadline e of None \<Rightarrow> True | Some d \<Rightarrow> now < d)"

definition lookup_live :: "world \<Rightarrow> string \<Rightarrow> entry option" where
  "lookup_live s k =
     (case lookup (cache s) k of
        Some e \<Rightarrow> if live (clock s) e then Some e else None
      | None \<Rightarrow> None)"

fun put :: "string \<Rightarrow> entry \<Rightarrow> keyspace \<Rightarrow> keyspace" where
  "put k e [] = [(k, Some e)]"
| "put k e ((k', v) # c) = (if k' = k then (k, Some e) # c else (k', v) # put k e c)"

definition remove :: "string \<Rightarrow> keyspace \<Rightarrow> keyspace" where
  "remove k c = map (\<lambda>(k', v). if k' = k then (k', None) else (k', v)) c"

text \<open>Issuing a command records it and uses up one fault flag; the result says whether it went through.\<close>

definition issue :: "redis_cmd \<Rightarrow> world \<Rightarrow> bool \<times> world" where
  "issue c s =
     (case faults s of
        [] \<Rightarrow> (True, s\<lparr>trace := trace s @ [Issued c]\<rparr>)
      | f # fs \<Rightarrow> (\<not> f, s\<lparr>faults := fs, trace := trace s @ [Issued c]\<rparr>))"

definition Get :: "string \<Rightarrow> world \<Rightarrow> string reply \<times> world" where
  "Get key s =
     (case issue (GET key) s of (ok, s1) \<Rightarrow>
        if \<not> ok then (Err, s1)
        else case lookup_live s1 key of
               None \<Rightarrow> (RNil, s1)
             | Some e \<Rightarrow> (Val (val e), s1))"

definition Set :: "string \<Rightarrow> string \<Rightarrow> nat \<Rightarrow> world \<Rightarrow> world" where
  "Set key v ttl s =
     (case issue (SET key v ttl) s of (ok, s1) \<Rightarrow>
        if \<not> ok then s1
        else s1\<lparr>cache := put key \<lparr>val = v, deadline = Some (clock s1 + ttl)\<rparr> (cache s1)\<rparr>)"

definition Del :: "string \<Rightarrow> world \<Rightarrow> world" where
  "Del key s =
     (case issue (DEL key) s of (ok, s1) \<Rightarrow>
        if \<not> ok then s1 else s1\<lparr>cache := remove key (cache s1)\<rparr>)"

definition Expire :: "string \<Rightarrow> nat \<Rightarrow> world \<Rightarrow> world" where
  "Expire key ttl s =
     (case issue (EXPIRE key ttl) s of (ok, s1) \<Rightarrow>
        if \<not> ok then s1
        else case lookup_live s1 key of
               None \<Rightarrow> s1
             | Some e \<Rightarrow> s1\<lparr>cache := put key (e\<lparr>deadline := Some (clock s1 + ttl)\<rparr>) (cache s1)\<rparr>)"

text \<open>
  The value of a counter is a string holding a canonical decimal number in the signed
  64-bit range; an increment of anything else, or one that would overflow, is an error
  and changes nothing. An absent (or logically expired) key is created at 1, with no
  expiration.
\<close>

definition string2ll :: "string \<Rightarrow> int option" where
  "string2ll v =
     (case Atoi v of
        None \<Rightarrow> None
      | Some n \<Rightarrow> if show_int n = v then Some n else None)"

definition Incr :: "string \<Rightarrow> world \<Rightarrow> int reply \<times> world" where
  "Incr key s =
     (case issue (INCR key) s of (ok, s1) \<Rightarrow>
        if \<not> ok then (Err, s1)
        else case lookup_live s1 key of
               None \<Rightarrow>
                 (Val 1, s1\<lparr>cache := put key \<lparr>val = show_int 1, deadline = None\<rparr> (cache s1)\<rparr>)
             | Some e \<Rightarrow>
                 (case string2ll (val e) of
                    None \<Rightarrow> (Err, s1)
                  | Some n \<Rightarrow>
                      if n = 2 ^ 63 - 1 then (Err, s1)
                      else (Val (n + 1),
                            s1\<lparr>cache := put key (e\<lparr>val := show_int (n + 1)\<rparr>) (cache s1)\<rparr>)))"

text \<open>
  The ttl-query as go-redis hands it to the program, a \<^verbatim>\<open>time.Duration\<close> in
  nanoseconds: the backend's answer in seconds, \<open>-1\<close> for a key with no expiration and
  \<open>-2\<close> for an absent key, which go-redis passes on unscaled.
\<close>

definition ttl_seconds :: "world \<Rightarrow> string \<Rightarrow> int" where
  "ttl_seconds s key =
     (case lookup (cache s) key of
        None \<Rightarrow> - 2
      | Some e \<Rightarrow> (case deadline e of None \<Rightarrow> - 1 | Some d \<Rightarrow> int d - int (clock s)))"

definition duration_of :: "int \<Rightarrow> int" where
  "duration_of n = (if n = - 1 \<or> n = - 2 then n else n * 1000000000)"

definition Ttl :: "string \<Rightarrow> world \<Rightarrow> int reply \<times> world" where
  "Ttl key s =
     (case issue (TTL key) s of (ok, s1) \<Rightarrow>
        if \<not> ok then (Err, s1) else (Val (duration_of (ttl_seconds s1 key)), s1))"

text \<open>
  Glob matching of a scan pattern, for patterns made of literal characters and \<open>*\<close>
  (the program's only pattern is \<^verbatim>\<open>product:*\<close>).
\<close>

fun glob :: "string \<Rightarrow> string \<Rightarrow> bool" where
  "glob [] k = (k = [])"
| "glob (p # ps) [] = (p = CHR ''*'' \<and> glob ps [])"
| "glob (p # ps) (c # cs) =
     (if p = CHR ''*'' then glob ps (c # cs) \<or> glob (p # ps) cs
      else p = c \<and> glob ps cs)"

text \<open>
  One page of a scan: the cursor is a slot position, a page covers \<open>count\<close> slots and
  lists the keys of its filled slots that match; the next cursor is 0 once the table is
  exhausted. A page size of 0 is refused, as the backend does.
\<close>

definition page_keys :: "nat \<Rightarrow> string \<Rightarrow> nat \<Rightarrow> keyspace \<Rightarrow> string list" where
  "page_keys cursor pat count c =
     map fst (filter (\<lambda>(k, v). v \<noteq> None \<and> glob pat k) (take count (drop cursor c)))"

definition next_cursor :: "nat \<Rightarrow> nat \<Rightarrow> keyspace \<Rightarrow> nat" where
  "next_cursor cursor count c = (if cursor + count < length c then cursor + count else 0)"

definition Scan :: "nat \<Rightarrow> string \<Rightarrow> nat \<Rightarrow> world \<Rightarrow> (string list \<times> nat) reply \<times> world" where
  "Scan cursor pat count s =
     (case issue (SCAN cursor pat count) s of (ok, s1) \<Rightarrow>
        if \<not> ok \<or> count = 0 then (Err, s1)
        else (Val (page_keys cursor pat count (cache s1), next_cursor cursor count (cache s1)), s1))"

section \<open>The handlers\<close>

datatype response =
    OK Product
  | NoContent
  | BadRequest string
  | NotFound string

text \<open>
  Handler - GET /product/{id} (the source's \<^verbatim>\<open>id\<close> is \<open>pid\<close> here). \<open>OK p\<close> is
  the 200 response whose body is the JSON encoding of \<open>p\<close>. The result of a failed
  \<^verbatim>\<open>Incr\<close> is Go's zero value. The results of \<^verbatim>\<open>Expire\<close> and \<^verbatim>\<open>Set\<close> are
  not looked at, nor are those of \<^verbatim>\<open>Del\<close> in the PUT handler and in the cleaner.
  The read and the write of the map happen under \<^verbatim>\<open>fakeDBLock\<close>; here a handler
  runs as one step.
\<close>

definition getProductHandler :: "json_codec \<Rightarrow> string \<Rightarrow> world \<Rightarrow> response \<times> world" where
  "getProductHandler cdc idStr s =
     (case Atoi idStr of
        None \<Rightarrow> (BadRequest ''Invalid product id'', s)
      | Some pid \<Rightarrow>
          let redisKey = redisProductKey pid;
              redisHitsKey = redisProductHitsKey pid
          in case Get redisKey s of (r, s1) \<Rightarrow>
               (case (case r of Val data \<Rightarrow> Unmarshal cdc data | _ \<Rightarrow> None) of
                  Some product \<Rightarrow>
                    (case Incr redisHitsKey s1 of (h, s2) \<Rightarrow>
                       let hits = (case h of Val n \<Rightarrow> n | _ \<Rightarrow> 0)
                       in if hits \<ge> popularThreshold
                          then (OK product,
                                Expire redisHitsKey redisProductTTL
                                  (Expire redisKey redisProductTTL s2))
                          else (OK product, s2))
                | None \<Rightarrow>
                    let s2 = s1\<lparr>trace := trace s1 @ [DBRead pid]\<rparr>
                    in (case db s2 pid of
                          None \<Rightarrow> (NotFound ''Product not found'', s2)
                        | Some dbProduct \<Rightarrow>
                            (OK dbProduct,
                             Set redisHitsKey (show_int 1) redisProductTTL
                               (Set redisKey (Marshal cdc dbProduct) redisProductTTL s2)))))"

text \<open>Handler - PUT /product/{id}.\<close>

definition updateProductHandler :: "json_codec \<Rightarrow> string \<Rightarrow> string \<Rightarrow> world \<Rightarrow> response \<times> world" where
  "updateProductHandler cdc idStr body s =
     (case Atoi idStr of
        None \<Rightarrow> (BadRequest ''Invalid product id'', s)
      | Some pid \<Rightarrow>
          (case Decode cdc body of
             None \<Rightarrow> (BadRequest ''Invalid JSON'', s)
           | Some input \<Rightarrow>
               if ID input \<noteq> pid then (BadRequest ''ID in path and body mismatch'', s)
               else
                 let p = \<lparr>ID = pid, Name = Name input, Price = Price input\<rparr>;
                     s1 = s\<lparr>db := (db s)(pid \<mapsto> p), trace := trace s @ [DBWrite pid p]\<rparr>
                 in (NoContent, Del (redisProductHitsKey pid) (Del (redisProductKey pid) s1))))"

text \<open>
  Remove keys in background that are already expired or stale. The inner loop over the
  keys of one page, then the loop over the pages.
\<close>

fun sweep_keys :: "string list \<Rightarrow> world \<Rightarrow> world" where
  "sweep_keys [] s = s"
| "sweep_keys (key # keys) s =
     (case Ttl key s of (r, s1) \<Rightarrow>
        sweep_keys keys
          (case r of
             Val ttl \<Rightarrow> if ttl \<le> 0 \<or> ttl = - 1 then Del key s1 else s1
           | _ \<Rightarrow> s1))"

text \<open>Deleting never moves a slot, which is what lets the loop over the pages end.\<close>

lemma length_remove: "length (remove k c) = length c"
  by (simp add: remove_def)

lemma cache_issue: "cache (snd (issue c s)) = cache s"
  by (simp add: issue_def split: list.splits)

lemma length_cache_Del: "length (cache (Del k s)) = length (cache s)"
  using cache_issue [of "DEL k" s]
  by (auto simp: Del_def length_remove split: prod.splits)

lemma cache_Ttl: "cache (snd (Ttl k s)) = cache s"
  using cache_issue [of "TTL k" s]
  by (auto simp: Ttl_def split: prod.splits)

lemma length_cache_sweep_keys: "length (cache (sweep_keys ks s)) = length (cache s)"
proof (induction ks arbitrary: s)
  case Nil
  then show ?case by simp
next
  case (Cons k ks)
  show ?case
    using cache_Ttl [of k s]
    by (auto simp: Cons.IH length_cache_Del split: prod.splits reply.splits)
qed

lemma Scan_next:
  "Scan cursor pat count s = (Val (ks, n), s1) \<Longrightarrow> n \<noteq> 0 \<Longrightarrow>
     cursor < n \<and> n < length (cache s) \<and> cache s1 = cache s"
  using cache_issue [of "SCAN cursor pat count" s]
  by (auto simp: Scan_def next_cursor_def split: prod.splits if_splits)

text \<open>
  \<^verbatim>\<open>cleanStaleProductKeys\<close>: scan page after page from cursor 0 until the cursor comes
  back as 0; a failed scan ends the pass (the line it writes to the log is left out).
\<close>

function cleanStaleProductKeys_from :: "nat \<Rightarrow> world \<Rightarrow> world" where
  "cleanStaleProductKeys_from cursor s =
     (case Scan cursor (redisProductKeyPrefix @ ''*'') scanCount s of
        (Val (keys, nextCursor), s1) \<Rightarrow>
          let s2 = sweep_keys keys s1
          in if nextCursor = 0 then s2 else cleanStaleProductKeys_from nextCursor s2
      | (_, s1) \<Rightarrow> s1)"
  by pat_completeness auto
termination
proof (relation "measure (\<lambda>(cursor, s). length (cache s) - cursor)")
  show "wf (measure (\<lambda>(cursor, s). length (cache s) - cursor))" by simp
next
  fix cursor s x1 s1 x keys nextCursor s2
  assume scan: "(x1, s1) = Scan cursor (redisProductKeyPrefix @ ''*'') scanCount s"
    and "x1 = Val x" and "(keys, nextCursor) = x" and s2: "s2 = sweep_keys keys s1"
    and more: "nextCursor \<noteq> 0"
  then have "Scan cursor (redisProductKeyPrefix @ ''*'') scanCount s = (Val (keys, nextCursor), s1)"
    by simp
  from Scan_next [OF this more]
  have "cursor < nextCursor" and "nextCursor < length (cache s)" and "cache s1 = cache s"
    by simp_all
  moreover have "length (cache s2) = length (cache s1)"
    by (simp add: s2 length_cache_sweep_keys)
  ultimately have "length (cache s2) - nextCursor < length (cache s) - cursor"
    by arith
  then show "((nextCursor, s2), cursor, s) \<in> measure (\<lambda>(cursor, s). length (cache s) - cursor)"
    by simp
qed

definition cleanStaleProductKeys :: "world \<Rightarrow> world" where
  "cleanStaleProductKeys s = cleanStaleProductKeys_from 0 s"

section \<open>Runs of the service\<close>




section \<open>The notions the properties are stated in\<close>


text \<open>Whether the \<open>n\<close>-th cache command from now fails.\<close>

definition fault_at :: "nat \<Rightarrow> world \<Rightarrow> bool" where
  "fault_at n s = (n < length (faults s) \<and> faults s ! n)"

text \<open>
  The cache agrees with the database about identifier \<open>k\<close>: a value under the entry key
  of \<open>k\<close> that deserializes is the record the database holds for \<open>k\<close>.
\<close>

definition coherent_at :: "json_codec \<Rightarrow> world \<Rightarrow> int \<Rightarrow> bool" where
  "coherent_at cdc s k =
     (case lookup (cache s) (redisProductKey k) of
        None \<Rightarrow> True
      | Some e \<Rightarrow> (case Unmarshal cdc (val e) of None \<Rightarrow> True | Some p \<Rightarrow> db s k = Some p))"

text \<open>
  What a GET of \<open>key\<close> yields as a record: nothing when the command fails, when the
  key is absent or logically expired, or when its value does not deserialize. The read
  path takes the database route exactly when this is nothing (\<open>missed\<close>).
\<close>

definition cached :: "json_codec \<Rightarrow> world \<Rightarrow> string \<Rightarrow> Product option" where
  "cached cdc s key =
     (if fault_at 0 s then None
      else case lookup_live s key of None \<Rightarrow> None | Some e \<Rightarrow> Unmarshal cdc (val e))"

definition missed :: "json_codec \<Rightarrow> world \<Rightarrow> string \<Rightarrow> bool" where
  "missed cdc s key = (cached cdc s key = None)"

text \<open>What an INCR of key \<open>k\<close> replies in world \<open>s\<close>.\<close>

definition incr_reply :: "world \<Rightarrow> string \<Rightarrow> int reply" where
  "incr_reply s k =
     (if fault_at 0 s then Err
      else case lookup_live s k of
             None \<Rightarrow> Val 1
           | Some e \<Rightarrow>
               (case string2ll (val e) of
                  None \<Rightarrow> Err
                | Some n \<Rightarrow> if n = 2 ^ 63 - 1 then Err else Val (n + 1)))"

text \<open>
  A key is under the domain prefix; the ttl-query of a key reports no expiration or a
  remaining time that is not positive (an absent key, reported as \<open>-2\<close>, counts as
  such: deleting it changes nothing).
\<close>

definition under_prefix :: "string \<Rightarrow> bool" where
  "under_prefix k = (take (length redisProductKeyPrefix) k = redisProductKeyPrefix)"

definition stale :: "world \<Rightarrow> string \<Rightarrow> bool" where
  "stale s k = (ttl_seconds s k = - 1 \<or> ttl_seconds s k \<le> 0)"

text \<open>
  A pass only ever empties slots. \<open>tombstone X\<close> empties the slots of the keys in \<open>X\<close>;
  \<open>listed pat c\<close> are the keys a scan of the slots \<open>c\<close> lists; \<open>sweep_key\<close> is the body
  of the loop over the keys of a page.
\<close>

definition tombstone :: "string set \<Rightarrow> keyspace \<Rightarrow> keyspace" where
  "tombstone X c = map (\<lambda>(k, v). if k \<in> X then (k, None) else (k, v)) c"

definition listed :: "string \<Rightarrow> keyspace \<Rightarrow> string set" where
  "listed pat c = {k. glob pat k \<and> (\<exists>e. (k, Some e) \<in> set c)}"

definition sweep_key :: "string \<Rightarrow> world \<Rightarrow> world" where
  "sweep_key key s =
     (case Ttl key s of (r, s1) \<Rightarrow>
        (case r of
           Val ttl \<Rightarrow> if ttl \<le> 0 \<or> ttl = - 1 then Del key s1 else s1
         | _ \<Rightarrow> s1))"

section \<open>Worlds and a codec to run the model on\<close>

text \<open>
  The world when the process starts on an empty cache, and a small codec to run the
  model on concrete requests (a product is written \<^verbatim>\<open>id,price,name\<close>).
\<close>

definition startWorld :: world where
  "startWorld = \<lparr>db = fakeProductDB, cache = [], clock = 0, faults = [], trace = []\<rparr>"

text \<open>The cache once product 1 has been fetched at time 0.\<close>

definition warmWorld :: world where
  "warmWorld =
     \<lparr>db = fakeProductDB,
      cache = [(''product:1'', Some \<lparr>val = ''1,100,Apple'', deadline = Some 30\<rparr>),
               (''product:1:hits'', Some \<lparr>val = ''1'', deadline = Some 30\<rparr>)],
      clock = 0, faults = [], trace = []\<rparr>"

text \<open>The cache when the entry of product 1 is there and its counter is not.\<close>

definition orphanWorld :: world where
  "orphanWorld =
     \<lparr>db = fakeProductDB,
      cache = [(''product:1'', Some \<lparr>val = ''1,100,Apple'', deadline = Some 30\<rparr>)],
      clock = 10, faults = [], trace = []\<rparr>"

text \<open>A keyspace with one key of each kind, ten seconds after the start.\<close>

definition sweepWorld :: world where
  "sweepWorld =
     \<lparr>db = fakeProductDB,
      cache = [(''product:1'', Some \<lparr>val = ''1,100,Apple'', deadline = Some 30\<rparr>),
               (''product:1:hits'', Some \<lparr>val = ''3'', deadline = None\<rparr>),
               (''product:2'', Some \<lparr>val = ''2,50,Banana'', deadline = Some 5\<rparr>),
               (''session:9'', Some \<lparr>val = ''x'', deadline = None\<rparr>)],
      clock = 10, faults = [], trace = []\<rparr>"

definition split_comma :: "string \<Rightarrow> string \<times> string" where
  "split_comma s =
     (takeWhile (\<lambda>c. c \<noteq> CHR '','') s, drop 1 (dropWhile (\<lambda>c. c \<noteq> CHR '','') s))"

definition line_marshal :: "Product \<Rightarrow> string" where
  "line_marshal p = show_int (ID p) @ '','' @ show_int (Price p) @ '','' @ Name p"

definition line_unmarshal :: "string \<Rightarrow> Product option" where
  "line_unmarshal s =
     (case split_comma s of (a, r) \<Rightarrow>
        (case split_comma r of (b, n) \<Rightarrow>
           (case (string2ll a, string2ll b) of
              (Some i, Some pr) \<Rightarrow> Some \<lparr>ID = i, Name = n, Price = pr\<rparr>
            | _ \<Rightarrow> None)))"

definition line_codec :: json_codec where
  "line_codec = \<lparr>Marshal = line_marshal, Unmarshal = line_unmarshal, Decode = line_unmarshal\<rparr>"

section \<open>Keys: no collision, no reuse across identifiers\<close>

declare digits.simps [simp del]

lemma of_char_digit_char: "(of_char (digit_char n) :: nat) = 48 + n mod 10"
proof -
  have "(48 + n mod 10) mod 256 = 48 + n mod 10"
    by (rule mod_less) arith
  then show ?thesis
    by (simp add: digit_char_def)
qed

lemma is_digit_digit_char: "is_digit (digit_char n)"
  by (simp add: is_digit_def of_char_digit_char)

lemma digit_val_digit_char: "digit_val (digit_char n) = n mod 10"
  by (simp add: digit_val_def of_char_digit_char)

lemma digits_nonempty: "digits n \<noteq> []"
  by (subst digits.simps) simp

lemma digits_all_digit: "list_all is_digit (digits n)"
  by (induction n rule: digits.induct) (subst digits.simps, simp add: is_digit_digit_char)

lemma dec_val_append: "dec_val a (xs @ ys) = dec_val (dec_val a xs) ys"
  by (induction xs arbitrary: a) simp_all

lemma dec_val_digits: "dec_val 0 (digits n) = n"
proof (induction n rule: digits.induct)
  case (1 n)
  show ?case
  proof (cases "n < 10")
    case True
    then show ?thesis
      by (subst digits.simps) (simp add: digit_val_digit_char)
  next
    case False
    with 1 have "dec_val 0 (digits (n div 10)) = n div 10" by simp
    with False show ?thesis
      by (subst digits.simps) (simp add: dec_val_append digit_val_digit_char)
  qed
qed

lemma digits_inj:
  assumes "digits a = digits b"
  shows "a = b"
proof -
  from assms have "dec_val 0 (digits a) = dec_val 0 (digits b)"
    by (rule arg_cong)
  then show ?thesis
    by (simp only: dec_val_digits)
qed

lemma hd_digits_digit: "is_digit (hd (digits n))"
  using digits_all_digit [of n] digits_nonempty [of n]
  by (cases "digits n") simp_all

lemma minus_not_digit: "\<not> is_digit CHR ''-''"
  by (simp add: is_digit_def)

lemma show_int_inj: "show_int a = show_int b \<Longrightarrow> a = b"
proof -
  assume eq: "show_int a = show_int b"
  have neg_pos: False if "x < 0" "\<not> y < 0" "show_int x = show_int y" for x y
  proof -
    from that have "CHR ''-'' # digits (nat (- x)) = digits (nat y)"
      by (simp add: show_int_def)
    then have "hd (digits (nat y)) = CHR ''-''"
      by (metis list.sel(1))
    with hd_digits_digit [of "nat y"] minus_not_digit show False by simp
  qed
  show ?thesis
  proof (cases "a < 0")
    case True
    show ?thesis
    proof (cases "b < 0")
      case True
      with \<open>a < 0\<close> eq have "digits (nat (- a)) = digits (nat (- b))"
        by (simp add: show_int_def)
      then have "nat (- a) = nat (- b)" by (rule digits_inj)
      with True \<open>a < 0\<close> show ?thesis by simp
    next
      case False
      with neg_pos [of a b] \<open>a < 0\<close> eq show ?thesis by simp
    qed
  next
    case False
    show ?thesis
    proof (cases "b < 0")
      case True
      with neg_pos [of b a] False eq show ?thesis by simp
    next
      case False
      with \<open>\<not> a < 0\<close> eq have "digits (nat a) = digits (nat b)"
        by (simp add: show_int_def)
      then have "nat a = nat b" by (rule digits_inj)
      with False \<open>\<not> a < 0\<close> show ?thesis by simp
    qed
  qed
qed

lemma last_show_int_digit: "show_int a \<noteq> [] \<and> is_digit (last (show_int a))"
proof -
  have "is_digit (last (digits n))" for n
    using digits_all_digit [of n] digits_nonempty [of n]
    by (metis last_in_set list_all_iff)
  then show ?thesis
    by (simp add: show_int_def digits_nonempty)
qed


lemma redisProductHitsKey_inj: "redisProductHitsKey a = redisProductHitsKey b \<Longrightarrow> a = b"
  by (simp add: redisProductHitsKey_def show_int_inj)

lemma key_neq_hits_key: "redisProductKey a \<noteq> redisProductHitsKey b"
proof
  assume "redisProductKey a = redisProductHitsKey b"
  then have "show_int a = show_int b @ '':hits''"
    by (simp add: redisProductKey_def redisProductHitsKey_def)
  then have "last (show_int a) = CHR ''s''"
    by simp
  with last_show_int_digit [of a] show False
    by (simp add: is_digit_def)
qed

section \<open>The cache commands, step by step\<close>

lemma issue_eq:
  "issue c s = (\<not> fault_at 0 s, s\<lparr>faults := drop 1 (faults s), trace := trace s @ [Issued c]\<rparr>)"
  by (cases "faults s") (simp_all add: issue_def fault_at_def)

lemma fault_at_upd [simp]:
  "fault_at n (s\<lparr>db := d\<rparr>) = fault_at n s"
  "fault_at n (s\<lparr>cache := c\<rparr>) = fault_at n s"
  "fault_at n (s\<lparr>clock := t\<rparr>) = fault_at n s"
  "fault_at n (s\<lparr>trace := tr\<rparr>) = fault_at n s"
  "fault_at n (s\<lparr>faults := drop m (faults s')\<rparr>) = fault_at (m + n) s'"
  by (auto simp: fault_at_def)

lemma lookup_put: "lookup (put k e c) k' = (if k' = k then Some e else lookup c k')"
  by (induction c) (auto simp: lookup_def)

lemma map_of_remove:
  "map_of (remove k c) k' = (if k' = k then map_option (\<lambda>_. None) (map_of c k) else map_of c k')"
  by (induction c) (auto simp: remove_def)

lemma lookup_remove: "lookup (remove k c) k' = (if k' = k then None else lookup c k')"
  by (auto simp: lookup_def map_of_remove split: option.splits)

lemma lookup_live_upd [simp]:
  "lookup_live (s\<lparr>db := d\<rparr>) k = lookup_live s k"
  "lookup_live (s\<lparr>faults := f\<rparr>) k = lookup_live s k"
  "lookup_live (s\<lparr>trace := tr\<rparr>) k = lookup_live s k"
  by (simp_all add: lookup_live_def cong: option.case_cong)

lemma Get_eq:
  "Get key s =
     (if fault_at 0 s then Err
      else case lookup_live s key of None \<Rightarrow> RNil | Some e \<Rightarrow> Val (val e),
      s\<lparr>faults := drop 1 (faults s), trace := trace s @ [Issued (GET key)]\<rparr>)"
  by (simp add: Get_def issue_eq split: option.splits)

lemma Get_cached:
  "(case fst (Get key s) of Val data \<Rightarrow> Unmarshal cdc data | _ \<Rightarrow> None) = cached cdc s key"
  by (simp add: Get_eq cached_def split: option.splits)

lemma apple_db: "db startWorld 1 = Some \<lparr>ID = 1, Name = ''Apple'', Price = 100\<rparr>"
  by (simp add: startWorld_def fakeProductDB_def)


lemma marshal_apple: "Marshal line_codec \<lparr>ID = 1, Name = ''Apple'', Price = 100\<rparr> = ''1,100,Apple''"
  unfolding line_codec_def by code_simp

lemma unmarshal_apple:
  "Unmarshal line_codec ''1,100,Apple'' = Some \<lparr>ID = 1, Name = ''Apple'', Price = 100\<rparr>"
  unfolding line_codec_def by code_simp

lemma Atoi_1: "Atoi ''1'' = Some 1"
  by code_simp

lemma Atoi_2: "Atoi ''2'' = Some 2"
  by code_simp

lemma key_1: "redisProductKey 1 = ''product:1''"
  by code_simp

lemma hits_key_1: "redisProductHitsKey 1 = ''product:1:hits''"
  by code_simp

lemma show_int_1: "show_int 1 = ''1''"
  by code_simp

section \<open>The write path\<close>

text \<open>
  C6. An update whose body names another identifier than the path is answered with a
  client error (400) and changes nothing: the world after the request is the world
  before it, database, cache keys and all.
\<close>

theorem update_mismatch_leaves_world:
  assumes "Atoi idStr = Some pid" and "Decode cdc body = Some input" and "ID input \<noteq> pid"
  shows "updateProductHandler cdc idStr body s = (BadRequest ''ID in path and body mismatch'', s)"
  using assms by (simp add: updateProductHandler_def)

lemma decode_kiwi:
  "Decode line_codec ''3,75,Kiwi'' = Some \<lparr>ID = 3, Name = ''Kiwi'', Price = 75\<rparr>"
  unfolding line_codec_def by code_simp

text \<open>The scenario of the specification: path id 2, body id 3.\<close>

theorem update_mismatch_leaves_world_witness:
  "Atoi ''2'' = Some 2 \<and>
   Decode line_codec ''3,75,Kiwi'' = Some \<lparr>ID = 3, Name = ''Kiwi'', Price = 75\<rparr> \<and>
   ID \<lparr>ID = 3, Name = ''Kiwi'', Price = 75\<rparr> \<noteq> 2 \<and>
   updateProductHandler line_codec ''2'' ''3,75,Kiwi'' startWorld =
     (BadRequest ''ID in path and body mismatch'', startWorld)"
proof -
  have n: "ID \<lparr>ID = 3, Name = ''Kiwi'', Price = 75\<rparr> \<noteq> 2" by simp
  from update_mismatch_leaves_world [OF Atoi_2 decode_kiwi n] Atoi_2 decode_kiwi n
  show ?thesis by simp
qed

text \<open>
  C4. An accepted update writes the database first and then issues, whatever the cache
  holds and whether or not the commands go through, the deletion of the entry key and
  the deletion of the hit-counter key, in this order, before it answers 204. A deletion
  that goes through leaves its key absent and touches no other key, so on an absent key
  it changes nothing.
\<close>

theorem update_writes_then_deletes:
  assumes "Atoi idStr = Some pid" and "Decode cdc body = Some input" and "ID input = pid"
  shows "fst (updateProductHandler cdc idStr body s) = NoContent \<and>
     db (snd (updateProductHandler cdc idStr body s)) =
       (db s)(pid \<mapsto> \<lparr>ID = pid, Name = Name input, Price = Price input\<rparr>) \<and>
     trace (snd (updateProductHandler cdc idStr body s)) =
       trace s @
       [DBWrite pid \<lparr>ID = pid, Name = Name input, Price = Price input\<rparr>,
        Issued (DEL (redisProductKey pid)), Issued (DEL (redisProductHitsKey pid))] \<and>
     (\<forall>k. lookup (cache (snd (updateProductHandler cdc idStr body s))) k =
        (if k = redisProductKey pid \<and> \<not> fault_at 0 s \<or>
            k = redisProductHitsKey pid \<and> \<not> fault_at 1 s
         then None else lookup (cache s) k))"
  using assms
  by (simp add: updateProductHandler_def Let_def Del_def issue_eq lookup_remove key_neq_hits_key)

lemma decode_apple_120:
  "Decode line_codec ''1,120,Apple'' = Some \<lparr>ID = 1, Name = ''Apple'', Price = 120\<rparr>"
  unfolding line_codec_def by code_simp

theorem update_writes_then_deletes_witness:
  "Atoi ''1'' = Some 1 \<and>
   Decode line_codec ''1,120,Apple'' = Some \<lparr>ID = 1, Name = ''Apple'', Price = 120\<rparr> \<and>
   fst (updateProductHandler line_codec ''1'' ''1,120,Apple'' startWorld) = NoContent \<and>
   db (snd (updateProductHandler line_codec ''1'' ''1,120,Apple'' startWorld)) 1 =
     Some \<lparr>ID = 1, Name = ''Apple'', Price = 120\<rparr> \<and>
   trace (snd (updateProductHandler line_codec ''1'' ''1,120,Apple'' startWorld)) =
     [DBWrite 1 \<lparr>ID = 1, Name = ''Apple'', Price = 120\<rparr>,
      Issued (DEL ''product:1''), Issued (DEL ''product:1:hits'')]"
proof -
  have i: "ID \<lparr>ID = 1, Name = ''Apple'', Price = 120\<rparr> = 1" by simp
  from update_writes_then_deletes [OF Atoi_1 decode_apple_120 i, of startWorld]
    Atoi_1 decode_apple_120
  show ?thesis by (simp add: key_1 hits_key_1 startWorld_def)
qed

section \<open>The read path\<close>

text \<open>The response of a GET request: the cached record if the cache yields one, else the database's.\<close>

lemma fetch_response:
  assumes "Atoi idStr = Some pid"
  shows "fst (getProductHandler cdc idStr s) =
     (case cached cdc s (redisProductKey pid) of
        Some q \<Rightarrow> OK q
      | None \<Rightarrow> (case db s pid of None \<Rightarrow> NotFound ''Product not found'' | Some p \<Rightarrow> OK p))"
  using assms Get_cached [of cdc "redisProductKey pid" s]
  by (simp add: getProductHandler_def Let_def Get_eq split: prod.splits option.splits)


text \<open>
  C2. When the GET of the entry key fails, finds nothing or finds a value that does not
  deserialize (\<open>missed\<close>), the handler reads the database. With no record there it
  answers 404 and issues no further cache command. With a record \<open>p\<close> it issues the
  SET of the entry key to the serialized \<open>p\<close> and then the SET of the hit counter to
  \<open>1\<close>, both with the full TTL, and answers \<open>p\<close>; each SET that goes through leaves its
  key with that value, expiring a full TTL from now, and no other key changes.
\<close>

theorem fetch_miss_fills:
  assumes "Atoi idStr = Some pid" and "missed cdc s (redisProductKey pid)"
  shows "case db s pid of
      None \<Rightarrow>
        getProductHandler cdc idStr s =
          (NotFound ''Product not found'',
           s\<lparr>faults := drop 1 (faults s),
             trace := trace s @ [Issued (GET (redisProductKey pid)), DBRead pid]\<rparr>)
    | Some p \<Rightarrow>
        fst (getProductHandler cdc idStr s) = OK p \<and>
        trace (snd (getProductHandler cdc idStr s)) =
          trace s @
          [Issued (GET (redisProductKey pid)), DBRead pid,
           Issued (SET (redisProductKey pid) (Marshal cdc p) redisProductTTL),
           Issued (SET (redisProductHitsKey pid) ''1'' redisProductTTL)] \<and>
        (\<forall>k. lookup (cache (snd (getProductHandler cdc idStr s))) k =
           (if k = redisProductKey pid \<and> \<not> fault_at 1 s
            then Some \<lparr>val = Marshal cdc p, deadline = Some (clock s + redisProductTTL)\<rparr>
            else if k = redisProductHitsKey pid \<and> \<not> fault_at 2 s
            then Some \<lparr>val = ''1'', deadline = Some (clock s + redisProductTTL)\<rparr>
            else lookup (cache s) k))"
proof -
  have miss:
    "(case fst (Get (redisProductKey pid) s) of Val data \<Rightarrow> Unmarshal cdc data | _ \<Rightarrow> None) = None"
    using assms(2) by (simp add: Get_cached missed_def)
  show ?thesis
  proof (cases "db s pid")
    case None
    with assms(1) miss show ?thesis
      by (simp add: getProductHandler_def Let_def Get_eq split: prod.splits)
  next
    case (Some p)
    with assms(1) miss show ?thesis
      by (simp add: getProductHandler_def Let_def Get_eq Set_def issue_eq lookup_put
          key_neq_hits_key show_int_1 numeral_2_eq_2 split: prod.splits)
  qed
qed

text \<open>The scenario of the specification: Fetch(1) on a cold cache.\<close>

theorem fetch_miss_fills_witness:
  "Atoi ''1'' = Some 1 \<and> missed line_codec startWorld (redisProductKey 1) \<and>
   fst (getProductHandler line_codec ''1'' startWorld) =
     OK \<lparr>ID = 1, Name = ''Apple'', Price = 100\<rparr> \<and>
   trace (snd (getProductHandler line_codec ''1'' startWorld)) =
     [Issued (GET ''product:1''), DBRead 1,
      Issued (SET ''product:1'' ''1,100,Apple'' 30), Issued (SET ''product:1:hits'' ''1'' 30)] \<and>
   lookup (cache (snd (getProductHandler line_codec ''1'' startWorld))) ''product:1'' =
     Some \<lparr>val = ''1,100,Apple'', deadline = Some 30\<rparr> \<and>
   lookup (cache (snd (getProductHandler line_codec ''1'' startWorld))) ''product:1:hits'' =
     Some \<lparr>val = ''1'', deadline = Some 30\<rparr>"
proof -
  have m: "missed line_codec startWorld (redisProductKey 1)"
    by (simp add: missed_def cached_def lookup_live_def lookup_def startWorld_def)
  have f: "\<not> fault_at 1 startWorld" "\<not> fault_at 2 startWorld" "clock startWorld = 0"
    "trace startWorld = []"
    by (simp_all add: fault_at_def startWorld_def)
  from fetch_miss_fills [OF Atoi_1 m] m Atoi_1 f show ?thesis
    by (simp add: apple_db marshal_apple key_1 hits_key_1 redisProductTTL_def)
qed




section \<open>Reading after writing\<close>

lemma update_world:
  assumes "Atoi idStr = Some pid" and "Decode cdc body = Some input" and "ID input = pid"
  shows "fst (updateProductHandler cdc idStr body s) = NoContent"
    and "db (snd (updateProductHandler cdc idStr body s)) =
       (db s)(pid \<mapsto> \<lparr>ID = pid, Name = Name input, Price = Price input\<rparr>)"
    and "clock (snd (updateProductHandler cdc idStr body s)) = clock s"
    and "lookup (cache (snd (updateProductHandler cdc idStr body s))) k =
        (if k = redisProductKey pid \<and> \<not> fault_at 0 s \<or>
            k = redisProductHitsKey pid \<and> \<not> fault_at 1 s
         then None else lookup (cache s) k)"
  using assms
  by (simp_all add: updateProductHandler_def Let_def Del_def issue_eq lookup_remove key_neq_hits_key)

lemma cached_later:
  "cached cdc (s\<lparr>clock := t\<rparr>) key =
     (if fault_at 0 s then None
      else case lookup (cache s) key of
             None \<Rightarrow> None
           | Some e \<Rightarrow> if live t e then Unmarshal cdc (val e) else None)"
  by (simp add: cached_def lookup_live_def split: option.splits)




text \<open>
  C9. An update for an identifier the database does not hold is answered 204 and puts a
  new record under that identifier; a fetch of it afterwards, at once or any time \<open>d\<close>
  later, returns the new record, whatever cache command fails on the way. The cache is
  taken to agree with the database about the identifier beforehand: it holds no record
  for an identifier the database does not know.
\<close>

theorem upsert_then_fetch:
  assumes "Atoi idStr = Some pid" and "Decode cdc body = Some input" and "ID input = pid"
    and "db s pid = None" and "coherent_at cdc s pid"
  shows "fst (updateProductHandler cdc idStr body s) = NoContent \<and>
     db (snd (updateProductHandler cdc idStr body s)) pid =
       Some \<lparr>ID = pid, Name = Name input, Price = Price input\<rparr> \<and>
     fst (getProductHandler cdc idStr
            ((snd (updateProductHandler cdc idStr body s))\<lparr>clock := clock s + d\<rparr>)) =
       OK \<lparr>ID = pid, Name = Name input, Price = Price input\<rparr>"
  using assms(4,5)
  by (auto simp: fetch_response [OF assms(1)] cached_later update_world [OF assms(1-3)]
      coherent_at_def split: option.splits)

lemma Atoi_7: "Atoi ''7'' = Some 7"
  by code_simp

lemma decode_fig: "Decode line_codec ''7,10,Fig'' = Some \<lparr>ID = 7, Name = ''Fig'', Price = 10\<rparr>"
  unfolding line_codec_def by code_simp

theorem upsert_then_fetch_witness:
  "Atoi ''7'' = Some 7 \<and>
   Decode line_codec ''7,10,Fig'' = Some \<lparr>ID = 7, Name = ''Fig'', Price = 10\<rparr> \<and>
   db startWorld 7 = None \<and> coherent_at line_codec startWorld 7 \<and>
   fst (updateProductHandler line_codec ''7'' ''7,10,Fig'' startWorld) = NoContent \<and>
   db (snd (updateProductHandler line_codec ''7'' ''7,10,Fig'' startWorld)) 7 =
     Some \<lparr>ID = 7, Name = ''Fig'', Price = 10\<rparr> \<and>
   fst (getProductHandler line_codec ''7''
          ((snd (updateProductHandler line_codec ''7'' ''7,10,Fig'' startWorld))
             \<lparr>clock := clock startWorld + 0\<rparr>)) =
     OK \<lparr>ID = 7, Name = ''Fig'', Price = 10\<rparr>"
proof -
  have i: "ID \<lparr>ID = 7, Name = ''Fig'', Price = 10\<rparr> = 7" by simp
  have n: "db startWorld 7 = None" by (simp add: startWorld_def fakeProductDB_def)
  have c: "coherent_at line_codec startWorld 7"
    by (simp add: coherent_at_def lookup_def startWorld_def)
  from upsert_then_fetch [OF Atoi_7 decode_fig i n c, of 0] Atoi_7 decode_fig n c
  show ?thesis by simp
qed

section \<open>The cache commands, by what they leave behind\<close>

lemma Set_simps:
  "db (Set k v t s) = db s"
  "clock (Set k v t s) = clock s"
  "trace (Set k v t s) = trace s @ [Issued (SET k v t)]"
  "fault_at n (Set k v t s) = fault_at (Suc n) s"
  by (simp_all add: Set_def issue_eq)

lemma Set_lookup:
  "lookup (cache (Set k v t s)) k' =
     (if k' = k \<and> \<not> fault_at 0 s then Some \<lparr>val = v, deadline = Some (clock s + t)\<rparr>
      else lookup (cache s) k')"
  by (simp add: Set_def issue_eq lookup_put)

lemma Del_simps:
  "db (Del k s) = db s"
  "clock (Del k s) = clock s"
  "trace (Del k s) = trace s @ [Issued (DEL k)]"
  "fault_at n (Del k s) = fault_at (Suc n) s"
  by (simp_all add: Del_def issue_eq)

lemma Del_lookup:
  "lookup (cache (Del k s)) k' = (if k' = k \<and> \<not> fault_at 0 s then None else lookup (cache s) k')"
  by (simp add: Del_def issue_eq lookup_remove)

lemma Expire_simps:
  "db (Expire k t s) = db s"
  "clock (Expire k t s) = clock s"
  "trace (Expire k t s) = trace s @ [Issued (EXPIRE k t)]"
  "fault_at n (Expire k t s) = fault_at (Suc n) s"
  by (simp_all add: Expire_def issue_eq split: option.splits)

lemma Expire_lookup:
  "lookup (cache (Expire k t s)) k' =
     (if k' = k \<and> \<not> fault_at 0 s
      then (case lookup_live s k of
              None \<Rightarrow> lookup (cache s) k
            | Some e \<Rightarrow> Some (e\<lparr>deadline := Some (clock s + t)\<rparr>))
      else lookup (cache s) k')"
  by (simp add: Expire_def issue_eq lookup_put split: option.splits)

lemma Incr_simps:
  "db (snd (Incr k s)) = db s"
  "clock (snd (Incr k s)) = clock s"
  "trace (snd (Incr k s)) = trace s @ [Issued (INCR k)]"
  "fault_at n (snd (Incr k s)) = fault_at (Suc n) s"
  "fst (Incr k s) = incr_reply s k"
  by (simp_all add: Incr_def incr_reply_def issue_eq split: option.splits)

lemma Incr_lookup:
  "lookup (cache (snd (Incr k s))) k' =
     (if k' = k
      then (case incr_reply s k of
              Val m \<Rightarrow>
                Some \<lparr>val = show_int m,
                      deadline = (case lookup_live s k of None \<Rightarrow> None | Some e \<Rightarrow> deadline e)\<rparr>
            | _ \<Rightarrow> lookup (cache s) k)
      else lookup (cache s) k')"
  by (simp add: Incr_def incr_reply_def issue_eq lookup_put split: option.splits)

lemma Get_simps:
  "db (snd (Get k s)) = db s"
  "clock (snd (Get k s)) = clock s"
  "cache (snd (Get k s)) = cache s"
  "trace (snd (Get k s)) = trace s @ [Issued (GET k)]"
  "fault_at n (snd (Get k s)) = fault_at (Suc n) s"
  by (simp_all add: Get_eq)

lemma lookup_live_alt:
  "lookup_live s k =
     (case lookup (cache s) k of None \<Rightarrow> None | Some e \<Rightarrow> if live (clock s) e then Some e else None)"
  by (simp add: lookup_live_def)

lemmas cmd_simps =
  Set_simps Set_lookup Del_simps Del_lookup Expire_simps Expire_lookup Incr_simps Incr_lookup
  Get_simps

lemma hit_path:
  assumes "Atoi idStr = Some pid" and "cached cdc s (redisProductKey pid) = Some p"
  shows "getProductHandler cdc idStr s =
     (OK p,
      let s1 = snd (Get (redisProductKey pid) s);
          s2 = snd (Incr (redisProductHitsKey pid) s1)
      in if popularThreshold \<le> (case incr_reply s1 (redisProductHitsKey pid) of Val m \<Rightarrow> m | _ \<Rightarrow> 0)
         then Expire (redisProductHitsKey pid) redisProductTTL
                (Expire (redisProductKey pid) redisProductTTL s2)
         else s2)"
  using assms Get_cached [of cdc "redisProductKey pid" s]
  by (simp add: getProductHandler_def Let_def case_prod_beta Incr_simps)

lemma lookup_live_Get: "lookup_live (snd (Get k s)) k' = lookup_live s k'"
  by (simp add: Get_eq)

text \<open>What a hit does, when the GET and the INCR go through.\<close>

lemma hit_effect:
  assumes atoi: "Atoi idStr = Some pid"
    and get_ok: "\<not> fault_at 0 s"
    and ent: "lookup_live s (redisProductKey pid) = Some e"
    and dec: "Unmarshal cdc (val e) = Some p"
    and incr_ok: "\<not> fault_at 1 s"
    and cnt: "(case lookup_live s (redisProductHitsKey pid) of
                 None \<Rightarrow> Some 0 | Some ce \<Rightarrow> string2ll (val ce)) = Some n"
    and rng: "n \<noteq> 2 ^ 63 - 1"
  shows "fst (getProductHandler cdc idStr s) = OK p \<and>
     trace (snd (getProductHandler cdc idStr s)) =
       trace s @ [Issued (GET (redisProductKey pid)), Issued (INCR (redisProductHitsKey pid))] @
       (if popularThreshold \<le> n + 1
        then [Issued (EXPIRE (redisProductKey pid) redisProductTTL),
              Issued (EXPIRE (redisProductHitsKey pid) redisProductTTL)]
        else []) \<and>
     lookup (cache (snd (getProductHandler cdc idStr s))) (redisProductKey pid) =
       Some (if popularThreshold \<le> n + 1 \<and> \<not> fault_at 2 s
             then e\<lparr>deadline := Some (clock s + redisProductTTL)\<rparr> else e) \<and>
     lookup (cache (snd (getProductHandler cdc idStr s))) (redisProductHitsKey pid) =
       Some \<lparr>val = show_int (n + 1),
             deadline =
               (if popularThreshold \<le> n + 1 \<and> \<not> fault_at 3 s
                then Some (clock s + redisProductTTL)
                else (case lookup_live s (redisProductHitsKey pid) of
                        None \<Rightarrow> None | Some ce \<Rightarrow> deadline ce))\<rparr> \<and>
     (deadline e = Some (t0 + redisProductTTL) \<and> t0 < clock s \<and>
      n + 1 = popularThreshold \<and> \<not> fault_at 2 s \<longrightarrow>
        lookup (cache (snd (getProductHandler cdc idStr s))) (redisProductKey pid) =
          Some (e\<lparr>deadline := Some (clock s + redisProductTTL)\<rparr>) \<and>
        t0 + redisProductTTL < clock s + redisProductTTL)"
proof -
  let ?key = "redisProductKey pid" and ?hkey = "redisProductHitsKey pid"
  let ?s1 = "snd (Get ?key s)"
  let ?s2 = "snd (Incr ?hkey ?s1)"
  have c: "cached cdc s ?key = Some p"
    using get_ok ent dec by (simp add: cached_def)
  have ent': "lookup (cache s) ?key = Some e" and le: "live (clock s) e"
    using ent by (simp_all add: lookup_live_def split: option.splits if_splits)
  have neq: "?hkey \<noteq> ?key"
    using key_neq_hits_key [of pid pid] by simp
  have ir: "incr_reply ?s1 ?hkey = Val (n + 1)"
    using incr_ok cnt rng
    by (auto simp: incr_reply_def Get_simps lookup_live_Get split: option.splits)
  have h2: "lookup (cache ?s2) ?hkey =
      Some \<lparr>val = show_int (n + 1),
            deadline = (case lookup_live s ?hkey of None \<Rightarrow> None | Some ce \<Rightarrow> deadline ce)\<rparr>"
    by (simp add: Incr_lookup ir lookup_live_Get)
  have k2: "lookup (cache ?s2) ?key = Some e"
    using neq ent' by (simp add: Incr_lookup Get_simps)
  have live_k2: "lookup_live ?s2 ?key = Some e"
    using k2 le by (simp add: lookup_live_alt Incr_simps Get_simps)
  have live_h: "live (clock s) \<lparr>val = show_int (n + 1),
      deadline = (case lookup_live s ?hkey of None \<Rightarrow> None | Some ce \<Rightarrow> deadline ce)\<rparr>"
    by (auto simp: live_def lookup_live_def split: option.splits if_splits)
  have res: "getProductHandler cdc idStr s =
      (OK p, if popularThreshold \<le> n + 1
             then Expire ?hkey redisProductTTL (Expire ?key redisProductTTL ?s2) else ?s2)"
    by (simp add: hit_path [OF atoi c] Let_def ir)
  have tr: "trace (snd (getProductHandler cdc idStr s)) =
       trace s @ [Issued (GET ?key), Issued (INCR ?hkey)] @
       (if popularThreshold \<le> n + 1
        then [Issued (EXPIRE ?key redisProductTTL), Issued (EXPIRE ?hkey redisProductTTL)]
        else [])"
    by (simp add: res Expire_simps Incr_simps Get_simps)
  have kk: "lookup (cache (snd (getProductHandler cdc idStr s))) ?key =
       Some (if popularThreshold \<le> n + 1 \<and> \<not> fault_at 2 s
             then e\<lparr>deadline := Some (clock s + redisProductTTL)\<rparr> else e)"
    using neq k2 live_k2
    by (simp add: res Expire_lookup Expire_simps Incr_simps Get_simps numeral_2_eq_2)
  have live_h3: "lookup_live (Expire ?key redisProductTTL ?s2) ?hkey =
      Some \<lparr>val = show_int (n + 1),
            deadline = (case lookup_live s ?hkey of None \<Rightarrow> None | Some ce \<Rightarrow> deadline ce)\<rparr>"
    using neq h2 live_h
    by (simp add: lookup_live_alt Expire_lookup Expire_simps Incr_simps Get_simps)
  have hh: "lookup (cache (snd (getProductHandler cdc idStr s))) ?hkey =
       Some \<lparr>val = show_int (n + 1),
             deadline =
               (if popularThreshold \<le> n + 1 \<and> \<not> fault_at 3 s
                then Some (clock s + redisProductTTL)
                else (case lookup_live s ?hkey of None \<Rightarrow> None | Some ce \<Rightarrow> deadline ce))\<rparr>"
    using neq h2 live_h3
    by (simp add: res Expire_lookup Expire_simps Incr_simps Get_simps numeral_3_eq_3)
  have last: "deadline e = Some (t0 + redisProductTTL) \<and> t0 < clock s \<and>
      n + 1 = popularThreshold \<and> \<not> fault_at 2 s \<longrightarrow>
        lookup (cache (snd (getProductHandler cdc idStr s))) ?key =
          Some (e\<lparr>deadline := Some (clock s + redisProductTTL)\<rparr>) \<and>
        t0 + redisProductTTL < clock s + redisProductTTL"
  proof (intro impI)
    assume a: "deadline e = Some (t0 + redisProductTTL) \<and> t0 < clock s \<and>
      n + 1 = popularThreshold \<and> \<not> fault_at 2 s"
    then have "popularThreshold \<le> n + 1" by simp
    with kk a show "lookup (cache (snd (getProductHandler cdc idStr s))) ?key =
          Some (e\<lparr>deadline := Some (clock s + redisProductTTL)\<rparr>) \<and>
        t0 + redisProductTTL < clock s + redisProductTTL"
      by simp
  qed
  have f: "fst (getProductHandler cdc idStr s) = OK p"
    by (simp add: res)
  show ?thesis
    by (intro conjI f tr kk hh last)
qed

text \<open>
  C3. On a cache hit (the GET goes through and its value deserializes), when the INCR
  goes through on a counter that stands at \<open>n\<close> (an absent counter counts as 0, so it
  is created at 1), the counter then holds \<open>n + 1\<close>, and the handler issues the two
  EXPIRE commands, for the entry key and for the counter key with the full TTL, if and
  only if \<open>n + 1\<close> is at or above the threshold; an EXPIRE that goes through moves the
  key's expiration to a full TTL from now, and otherwise the expirations stay as they
  were. In particular an entry created at \<open>t0\<close> with the full TTL and hit later, within
  its window, by the fetch that brings the counter to the threshold, then expires later
  than the \<open>t0 + TTL\<close> it was created with.
\<close>

theorem fetch_hit_counts:
  assumes "Atoi idStr = Some pid"
    and "\<not> fault_at 0 s"
    and "lookup_live s (redisProductKey pid) = Some e"
    and "Unmarshal cdc (val e) = Some p"
    and "\<not> fault_at 1 s"
    and "(case lookup_live s (redisProductHitsKey pid) of
            None \<Rightarrow> Some 0 | Some ce \<Rightarrow> string2ll (val ce)) = Some n"
    and "n \<noteq> 2 ^ 63 - 1"
  shows "fst (getProductHandler cdc idStr s) = OK p \<and>
     trace (snd (getProductHandler cdc idStr s)) =
       trace s @ [Issued (GET (redisProductKey pid)), Issued (INCR (redisProductHitsKey pid))] @
       (if popularThreshold \<le> n + 1
        then [Issued (EXPIRE (redisProductKey pid) redisProductTTL),
              Issued (EXPIRE (redisProductHitsKey pid) redisProductTTL)]
        else []) \<and>
     lookup (cache (snd (getProductHandler cdc idStr s))) (redisProductKey pid) =
       Some (if popularThreshold \<le> n + 1 \<and> \<not> fault_at 2 s
             then e\<lparr>deadline := Some (clock s + redisProductTTL)\<rparr> else e) \<and>
     lookup (cache (snd (getProductHandler cdc idStr s))) (redisProductHitsKey pid) =
       Some \<lparr>val = show_int (n + 1),
             deadline =
               (if popularThreshold \<le> n + 1 \<and> \<not> fault_at 3 s
                then Some (clock s + redisProductTTL)
                else (case lookup_live s (redisProductHitsKey pid) of
                        None \<Rightarrow> None | Some ce \<Rightarrow> deadline ce))\<rparr> \<and>
     (deadline e = Some (t0 + redisProductTTL) \<and> t0 < clock s \<and>
      n + 1 = popularThreshold \<and> \<not> fault_at 2 s \<longrightarrow>
        lookup (cache (snd (getProductHandler cdc idStr s))) (redisProductKey pid) =
          Some (e\<lparr>deadline := Some (clock s + redisProductTTL)\<rparr>) \<and>
        t0 + redisProductTTL < clock s + redisProductTTL)"
  using assms by (rule hit_effect)

text \<open>
  The scenario of the specification: product 1 was cached at time 0 with its counter at 1;
  the fetch at time 10 brings the counter to 2 and moves both expirations from 30 to 40.
\<close>

lemma string2ll_1: "string2ll ''1'' = Some 1"
  by code_simp

lemma show_int_2: "show_int 2 = ''2''"
  by code_simp

theorem fetch_hit_counts_witness:
  "Atoi ''1'' = Some 1 \<and> \<not> fault_at 0 (warmWorld\<lparr>clock := 10\<rparr>) \<and>
   lookup_live (warmWorld\<lparr>clock := 10\<rparr>) (redisProductKey 1) =
     Some \<lparr>val = ''1,100,Apple'', deadline = Some 30\<rparr> \<and>
   Unmarshal line_codec ''1,100,Apple'' = Some \<lparr>ID = 1, Name = ''Apple'', Price = 100\<rparr> \<and>
   \<not> fault_at 1 (warmWorld\<lparr>clock := 10\<rparr>) \<and>
   fst (getProductHandler line_codec ''1'' (warmWorld\<lparr>clock := 10\<rparr>)) =
     OK \<lparr>ID = 1, Name = ''Apple'', Price = 100\<rparr> \<and>
   trace (snd (getProductHandler line_codec ''1'' (warmWorld\<lparr>clock := 10\<rparr>))) =
     [Issued (GET ''product:1''), Issued (INCR ''product:1:hits''),
      Issued (EXPIRE ''product:1'' 30), Issued (EXPIRE ''product:1:hits'' 30)] \<and>
   lookup (cache (snd (getProductHandler line_codec ''1'' (warmWorld\<lparr>clock := 10\<rparr>))))
       ''product:1'' =
     Some \<lparr>val = ''1,100,Apple'', deadline = Some 40\<rparr> \<and>
   lookup (cache (snd (getProductHandler line_codec ''1'' (warmWorld\<lparr>clock := 10\<rparr>))))
       ''product:1:hits'' =
     Some \<lparr>val = ''2'', deadline = Some 40\<rparr>"
proof -
  let ?s = "warmWorld\<lparr>clock := 10\<rparr>"
  let ?e = "\<lparr>val = ''1,100,Apple'', deadline = Some 30\<rparr>"
  have f0: "\<not> fault_at 0 ?s" and f1: "\<not> fault_at 1 ?s"
    and f2: "\<not> fault_at 2 ?s" and f3: "\<not> fault_at 3 ?s"
    by (simp_all add: fault_at_def warmWorld_def)
  have ent: "lookup_live ?s (redisProductKey 1) = Some ?e"
    by (simp add: key_1 lookup_live_def lookup_def live_def warmWorld_def)
  have dec: "Unmarshal line_codec (val ?e) = Some \<lparr>ID = 1, Name = ''Apple'', Price = 100\<rparr>"
    by (simp add: unmarshal_apple)
  have hl: "lookup_live ?s (redisProductHitsKey 1) = Some \<lparr>val = ''1'', deadline = Some 30\<rparr>"
    by (simp add: hits_key_1 lookup_live_def lookup_def live_def warmWorld_def)
  have cnt: "(case lookup_live ?s (redisProductHitsKey 1) of
               None \<Rightarrow> Some 0 | Some ce \<Rightarrow> string2ll (val ce)) = Some 1"
    by (simp add: hl string2ll_1)
  have rng: "(1::int) \<noteq> 2 ^ 63 - 1" by simp
  have t: "trace ?s = []" "clock ?s = 10"
    by (simp_all add: warmWorld_def)
  from fetch_hit_counts [OF Atoi_1 f0 ent dec f1 cnt rng, of 0]
    Atoi_1 f0 f1 f2 f3 ent unmarshal_apple hl t
  show ?thesis
    by (simp add: key_1 hits_key_1 popularThreshold_def redisProductTTL_def show_int_2)
qed

section \<open>The sweeper\<close>

declare cleanStaleProductKeys_from.simps [simp del]

lemma remove_tombstone: "remove k c = tombstone {k} c"
  by (simp add: remove_def tombstone_def)

lemma tombstone_empty: "tombstone {} c = c"
  by (simp add: tombstone_def)

lemma tombstone_tombstone: "tombstone X (tombstone Y c) = tombstone (X \<union> Y) c"
  by (auto simp: tombstone_def)

lemma map_of_tombstone:
  "map_of (tombstone X c) k = (if k \<in> X then map_option (\<lambda>_. None) (map_of c k) else map_of c k)"
  by (induction c) (auto simp: tombstone_def)

lemma lookup_tombstone: "lookup (tombstone X c) k = (if k \<in> X then None else lookup c k)"
  by (auto simp: lookup_def map_of_tombstone split: option.splits)

lemma drop_tombstone: "drop n (tombstone X c) = tombstone X (drop n c)"
  by (simp add: tombstone_def drop_map)

lemma take_tombstone: "take n (tombstone X c) = tombstone X (take n c)"
  by (simp add: tombstone_def take_map)

lemma length_tombstone: "length (tombstone X c) = length c"
  by (simp add: tombstone_def)

lemma set_page_keys: "set (page_keys cursor pat count c) = listed pat (take count (drop cursor c))"
  by (force simp: page_keys_def listed_def)

lemma listed_tombstone: "listed pat (tombstone X c) = listed pat c - X"
  by (force simp: listed_def tombstone_def split: if_splits)

lemma listed_append: "listed pat (a @ b) = listed pat a \<union> listed pat b"
  by (auto simp: listed_def)

lemma listed_split:
  "listed pat (drop cursor c) =
     listed pat (take count (drop cursor c)) \<union> listed pat (drop (cursor + count) c)"
proof -
  have "drop cursor c = take count (drop cursor c) @ drop count (drop cursor c)"
    by (simp only: append_take_drop_id)
  then have "listed pat (drop cursor c) =
      listed pat (take count (drop cursor c) @ drop count (drop cursor c))"
    by simp
  then show ?thesis
    by (simp add: listed_append add.commute)
qed

lemma Ttl_simps:
  "db (snd (Ttl k s)) = db s"
  "clock (snd (Ttl k s)) = clock s"
  "cache (snd (Ttl k s)) = cache s"
  "trace (snd (Ttl k s)) = trace s @ [Issued (TTL k)]"
  "fault_at n (snd (Ttl k s)) = fault_at (Suc n) s"
  "fst (Ttl k s) = (if fault_at 0 s then Err else Val (duration_of (ttl_seconds s k)))"
  by (simp_all add: Ttl_def issue_eq ttl_seconds_def cong: option.case_cong)

lemma Scan_simps:
  "db (snd (Scan c pat n s)) = db s"
  "clock (snd (Scan c pat n s)) = clock s"
  "cache (snd (Scan c pat n s)) = cache s"
  "trace (snd (Scan c pat n s)) = trace s @ [Issued (SCAN c pat n)]"
  "fault_at m (snd (Scan c pat n s)) = fault_at (Suc m) s"
  "fst (Scan c pat n s) =
     (if fault_at 0 s \<or> n = 0 then Err
      else Val (page_keys c pat n (cache s), next_cursor c n (cache s)))"
  by (simp_all add: Scan_def issue_eq)

lemma Del_cache: "cache (Del k s) = (if fault_at 0 s then cache s else tombstone {k} (cache s))"
  by (simp add: Del_def issue_eq remove_tombstone)

lemma duration_stale: "(duration_of n \<le> 0 \<or> duration_of n = - 1) = (n \<le> 0)"
  by (auto simp: duration_of_def)

lemma sweep_keys_Cons: "sweep_keys (key # keys) s = sweep_keys keys (sweep_key key s)"
  by (simp add: sweep_key_def split: prod.splits)

declare sweep_keys.simps(2) [simp del]

lemma ttl_seconds_cong:
  "lookup (cache s') k = lookup (cache s) k \<Longrightarrow> clock s' = clock s \<Longrightarrow>
     ttl_seconds s' k = ttl_seconds s k"
  by (simp add: ttl_seconds_def cong: option.case_cong)

lemma ttl_seconds_absent: "lookup (cache s) k = None \<Longrightarrow> ttl_seconds s k = - 2"
  by (simp add: ttl_seconds_def)

lemma sweep_key_any:
  "\<exists>X. X \<subseteq> {k. k = key \<and> ttl_seconds s k \<le> 0} \<and>
       cache (sweep_key key s) = tombstone X (cache s) \<and>
       clock (sweep_key key s) = clock s \<and> db (sweep_key key s) = db s"
proof (cases "\<not> fault_at 0 s \<and> ttl_seconds s key \<le> 0 \<and> \<not> fault_at 1 s")
  case True
  then have "cache (sweep_key key s) = tombstone {key} (cache s) \<and>
       clock (sweep_key key s) = clock s \<and> db (sweep_key key s) = db s"
    by (simp add: sweep_key_def case_prod_beta Ttl_simps duration_stale Del_cache Del_simps)
  with True show ?thesis
    by (intro exI [of _ "{key}"]) simp
next
  case False
  then have "cache (sweep_key key s) = tombstone {} (cache s) \<and>
       clock (sweep_key key s) = clock s \<and> db (sweep_key key s) = db s"
    by (auto simp: sweep_key_def case_prod_beta Ttl_simps duration_stale Del_cache Del_simps
        tombstone_empty)
  then show ?thesis
    by (intro exI [of _ "{}"]) simp
qed

lemma sweep_key_exact:
  assumes "\<forall>n. \<not> fault_at n s"
  shows "cache (sweep_key key s) = tombstone {k. k = key \<and> ttl_seconds s k \<le> 0} (cache s)"
    and "clock (sweep_key key s) = clock s"
    and "\<forall>n. \<not> fault_at n (sweep_key key s)"
proof -
  have eq: "{k. k = key \<and> ttl_seconds s k \<le> 0} = (if ttl_seconds s key \<le> 0 then {key} else {})"
    by auto
  show "cache (sweep_key key s) = tombstone {k. k = key \<and> ttl_seconds s k \<le> 0} (cache s)"
    unfolding eq using assms
    by (simp add: sweep_key_def case_prod_beta Ttl_simps duration_stale Del_cache tombstone_empty)
  show "clock (sweep_key key s) = clock s"
    using assms
    by (simp add: sweep_key_def case_prod_beta Ttl_simps duration_stale Del_simps)
  show "\<forall>n. \<not> fault_at n (sweep_key key s)"
    using assms
    by (simp add: sweep_key_def case_prod_beta Ttl_simps duration_stale Del_simps)
qed

lemma stale_after_tombstone:
  assumes "cache s' = tombstone X (cache s)" and "clock s' = clock s"
    and "X \<subseteq> {k. ttl_seconds s k \<le> 0}"
  shows "(ttl_seconds s' k \<le> 0) = (ttl_seconds s k \<le> 0)"
proof (cases "k \<in> X")
  case True
  with assms have "lookup (cache s') k = None" and "ttl_seconds s k \<le> 0"
    by (auto simp: lookup_tombstone)
  then have "ttl_seconds s' k = - 2" and "ttl_seconds s k \<le> 0"
    by (simp_all add: ttl_seconds_absent)
  then show ?thesis by simp
next
  case False
  with assms have "lookup (cache s') k = lookup (cache s) k"
    by (simp add: lookup_tombstone)
  from ttl_seconds_cong [OF this assms(2)] have "ttl_seconds s' k = ttl_seconds s k" .
  then show ?thesis by simp
qed

lemma sweep_keys_exact:
  assumes "\<forall>n. \<not> fault_at n s"
  shows "cache (sweep_keys ks s) = tombstone {k \<in> set ks. ttl_seconds s k \<le> 0} (cache s) \<and>
     clock (sweep_keys ks s) = clock s \<and> (\<forall>n. \<not> fault_at n (sweep_keys ks s))"
  using assms
proof (induction ks arbitrary: s)
  case Nil
  then show ?case by (simp add: tombstone_empty)
next
  case (Cons key keys)
  let ?s' = "sweep_key key s"
  let ?X = "{k. k = key \<and> ttl_seconds s k \<le> 0}"
  note one = sweep_key_exact [OF Cons.prems, of key]
  have st: "(ttl_seconds ?s' k \<le> 0) = (ttl_seconds s k \<le> 0)" for k
    by (rule stale_after_tombstone [OF one(1) one(2)]) auto
  from Cons.IH [OF one(3)]
  have "cache (sweep_keys keys ?s') =
      tombstone {k \<in> set keys. ttl_seconds ?s' k \<le> 0} (cache ?s')"
    and rest: "clock (sweep_keys keys ?s') = clock ?s'" "\<forall>n. \<not> fault_at n (sweep_keys keys ?s')"
    by simp_all
  then have "cache (sweep_keys keys ?s') =
      tombstone ({k \<in> set keys. ttl_seconds s k \<le> 0} \<union> ?X) (cache s)"
    by (simp add: st one(1) tombstone_tombstone)
  moreover have "{k \<in> set keys. ttl_seconds s k \<le> 0} \<union> ?X =
      {k \<in> set (key # keys). ttl_seconds s k \<le> 0}"
    by auto
  ultimately show ?case
    using rest one(2) by (simp add: sweep_keys_Cons)
qed

lemma sweep_keys_any:
  "\<exists>X. X \<subseteq> {k \<in> set ks. ttl_seconds s k \<le> 0} \<and>
       cache (sweep_keys ks s) = tombstone X (cache s) \<and>
       clock (sweep_keys ks s) = clock s \<and> db (sweep_keys ks s) = db s"
proof (induction ks arbitrary: s)
  case Nil
  show ?case by (intro exI [of _ "{}"]) (simp add: tombstone_empty)
next
  case (Cons key keys)
  let ?s' = "sweep_key key s"
  from sweep_key_any [of key s] obtain X1 where
    X1: "X1 \<subseteq> {k. k = key \<and> ttl_seconds s k \<le> 0}" "cache ?s' = tombstone X1 (cache s)"
      "clock ?s' = clock s" "db ?s' = db s"
    by blast
  have st: "(ttl_seconds ?s' k \<le> 0) = (ttl_seconds s k \<le> 0)" for k
    by (rule stale_after_tombstone [OF X1(2) X1(3)]) (use X1(1) in auto)
  from Cons.IH [of ?s'] obtain X2 where
    X2: "X2 \<subseteq> {k \<in> set keys. ttl_seconds ?s' k \<le> 0}"
      "cache (sweep_keys keys ?s') = tombstone X2 (cache ?s')"
      "clock (sweep_keys keys ?s') = clock ?s'" "db (sweep_keys keys ?s') = db ?s'"
    by blast
  have "X2 \<union> X1 \<subseteq> {k \<in> set (key # keys). ttl_seconds s k \<le> 0}"
    using X1(1) X2(1) st by auto
  moreover have "cache (sweep_keys (key # keys) s) = tombstone (X2 \<union> X1) (cache s)"
    by (simp add: sweep_keys_Cons X2(2) X1(2) tombstone_tombstone)
  moreover have "clock (sweep_keys (key # keys) s) = clock s" "db (sweep_keys (key # keys) s) = db s"
    by (simp_all add: sweep_keys_Cons X2 X1)
  ultimately show ?case by blast
qed

lemma loop_unfold:
  "cleanStaleProductKeys_from cursor s =
     (let pat = redisProductKeyPrefix @ ''*''; s1 = snd (Scan cursor pat scanCount s)
      in if fault_at 0 s then s1
         else let s2 = sweep_keys (page_keys cursor pat scanCount (cache s)) s1
              in if next_cursor cursor scanCount (cache s) = 0 then s2
                 else cleanStaleProductKeys_from (next_cursor cursor scanCount (cache s)) s2)"
proof -
  let ?pat = "redisProductKeyPrefix @ ''*''"
  have sc: "Scan cursor ?pat scanCount s =
      (fst (Scan cursor ?pat scanCount s), snd (Scan cursor ?pat scanCount s))"
    by simp
  show ?thesis
    by (subst cleanStaleProductKeys_from.simps, subst sc)
      (simp add: Scan_simps scanCount_def Let_def del: prod.collapse)
qed

lemma Scan_free:
  assumes "\<forall>n. \<not> fault_at n s"
  shows "\<forall>n. \<not> fault_at n (snd (Scan c pat m s))"
  using assms by (simp add: Scan_simps)

lemma next_cursor_cases:
  assumes "count \<noteq> 0"
  shows "next_cursor cursor count c = 0 \<and> take count (drop cursor c) = drop cursor c \<or>
     next_cursor cursor count c = cursor + count \<and> cursor + count < length c"
  using assms by (auto simp: next_cursor_def)

lemma loop_exact:
  assumes "\<forall>n. \<not> fault_at n s"
  shows "cache (cleanStaleProductKeys_from cursor s) =
       tombstone {k \<in> listed (redisProductKeyPrefix @ ''*'') (drop cursor (cache s)).
                  ttl_seconds s k \<le> 0} (cache s)"
  using assms
proof (induction "length (cache s) - cursor" arbitrary: cursor s rule: less_induct)
  case less
  let ?pat = "redisProductKeyPrefix @ ''*''"
  let ?s1 = "snd (Scan cursor ?pat scanCount s)"
  let ?keys = "page_keys cursor ?pat scanCount (cache s)"
  let ?s2 = "sweep_keys ?keys ?s1"
  let ?next = "next_cursor cursor scanCount (cache s)"
  let ?X1 = "{k \<in> listed ?pat (take scanCount (drop cursor (cache s))). ttl_seconds s k \<le> 0}"
  have f0: "\<not> fault_at 0 s" using less.prems by simp
  have free1: "\<forall>n. \<not> fault_at n ?s1" using less.prems by (rule Scan_free)
  have t1: "ttl_seconds ?s1 k = ttl_seconds s k" for k
    by (rule ttl_seconds_cong) (simp_all add: Scan_simps)
  from sweep_keys_exact [OF free1, of ?keys]
  have c2: "cache ?s2 = tombstone ?X1 (cache s)" and k2: "clock ?s2 = clock s"
    and free2: "\<forall>n. \<not> fault_at n ?s2"
    by (simp_all add: t1 set_page_keys Scan_simps)
  have t2: "(ttl_seconds ?s2 k \<le> 0) = (ttl_seconds s k \<le> 0)" for k
    by (rule stale_after_tombstone [OF c2 k2]) auto
  have unf: "cleanStaleProductKeys_from cursor s =
      (if ?next = 0 then ?s2 else cleanStaleProductKeys_from ?next ?s2)"
    using f0 by (subst loop_unfold) (simp add: Let_def)
  have n0: "scanCount \<noteq> 0" by (simp add: scanCount_def)
  from next_cursor_cases [OF n0, of cursor "cache s"] show ?case
  proof (elim disjE conjE)
    assume "?next = 0" and "take scanCount (drop cursor (cache s)) = drop cursor (cache s)"
    with n0 c2 unf show ?thesis by simp
  next
    assume nx: "?next = cursor + scanCount" and lt: "cursor + scanCount < length (cache s)"
    with n0 have "length (cache ?s2) - ?next < length (cache s) - cursor"
      by (simp add: c2 length_tombstone)
    from less.hyps [OF this free2]
    have "cache (cleanStaleProductKeys_from ?next ?s2) =
        tombstone ({k \<in> listed ?pat (drop (cursor + scanCount) (cache s)) - ?X1.
                     ttl_seconds s k \<le> 0} \<union> ?X1) (cache s)"
      by (simp add: c2 nx drop_tombstone listed_tombstone t2 tombstone_tombstone)
    moreover have "{k \<in> listed ?pat (drop (cursor + scanCount) (cache s)) - ?X1.
                     ttl_seconds s k \<le> 0} \<union> ?X1 =
        {k \<in> listed ?pat (drop cursor (cache s)). ttl_seconds s k \<le> 0}"
      using listed_split [of ?pat cursor "cache s" scanCount] by auto
    ultimately show ?thesis
      using unf nx n0 by simp
  qed
qed

lemma listed_glob: "k \<in> listed pat c \<Longrightarrow> glob pat k"
  by (simp add: listed_def)

lemma loop_any:
  "\<exists>X. X \<subseteq> {k. glob (redisProductKeyPrefix @ ''*'') k \<and> ttl_seconds s k \<le> 0} \<and>
       cache (cleanStaleProductKeys_from cursor s) = tombstone X (cache s) \<and>
       clock (cleanStaleProductKeys_from cursor s) = clock s \<and>
       db (cleanStaleProductKeys_from cursor s) = db s"
proof (induction "length (cache s) - cursor" arbitrary: cursor s rule: less_induct)
  case less
  let ?pat = "redisProductKeyPrefix @ ''*''"
  let ?s1 = "snd (Scan cursor ?pat scanCount s)"
  let ?keys = "page_keys cursor ?pat scanCount (cache s)"
  let ?s2 = "sweep_keys ?keys ?s1"
  let ?next = "next_cursor cursor scanCount (cache s)"
  have t1: "ttl_seconds ?s1 k = ttl_seconds s k" for k
    by (rule ttl_seconds_cong) (simp_all add: Scan_simps)
  from sweep_keys_any [of ?keys ?s1] obtain X1 where
    X1: "X1 \<subseteq> {k \<in> set ?keys. ttl_seconds s k \<le> 0}" "cache ?s2 = tombstone X1 (cache s)"
      "clock ?s2 = clock s" "db ?s2 = db s"
    by (auto simp: t1 Scan_simps)
  have g1: "X1 \<subseteq> {k. glob ?pat k \<and> ttl_seconds s k \<le> 0}"
    using X1(1) by (auto simp: set_page_keys dest: listed_glob)
  have t2: "(ttl_seconds ?s2 k \<le> 0) = (ttl_seconds s k \<le> 0)" for k
    by (rule stale_after_tombstone [OF X1(2) X1(3)]) (use g1 in auto)
  show ?case
  proof (cases "fault_at 0 s")
    case True
    then have "cleanStaleProductKeys_from cursor s = ?s1"
      by (subst loop_unfold) (simp add: Let_def)
    then show ?thesis
      by (intro exI [of _ "{}"]) (simp add: tombstone_empty Scan_simps)
  next
    case False
    then have unf: "cleanStaleProductKeys_from cursor s =
        (if ?next = 0 then ?s2 else cleanStaleProductKeys_from ?next ?s2)"
      by (subst loop_unfold) (simp add: Let_def)
    show ?thesis
    proof (cases "?next = 0")
      case True
      with unf X1 g1 show ?thesis by auto
    next
      case False
      have n0: "scanCount \<noteq> 0" by (simp add: scanCount_def)
      from False next_cursor_cases [OF n0, of cursor "cache s"]
      have nx: "?next = cursor + scanCount" and lt: "cursor + scanCount < length (cache s)"
        by auto
      with n0 have "length (cache ?s2) - ?next < length (cache s) - cursor"
        by (simp add: X1(2) length_tombstone)
      from less.hyps [OF this] obtain X2 where
        X2: "X2 \<subseteq> {k. glob ?pat k \<and> ttl_seconds ?s2 k \<le> 0}"
          "cache (cleanStaleProductKeys_from ?next ?s2) = tombstone X2 (cache ?s2)"
          "clock (cleanStaleProductKeys_from ?next ?s2) = clock ?s2"
          "db (cleanStaleProductKeys_from ?next ?s2) = db ?s2"
        by blast
      have "X2 \<union> X1 \<subseteq> {k. glob ?pat k \<and> ttl_seconds s k \<le> 0}"
        using X2(1) g1 t2 by auto
      moreover have "cache (cleanStaleProductKeys_from cursor s) = tombstone (X2 \<union> X1) (cache s)"
        using False by (simp add: unf X2(2) X1(2) tombstone_tombstone)
      moreover have "clock (cleanStaleProductKeys_from cursor s) = clock s"
        "db (cleanStaleProductKeys_from cursor s) = db s"
        using False by (simp_all add: unf X2 X1)
      ultimately show ?thesis by blast
    qed
  qed
qed

lemma glob_star: "glob ''*'' k"
  by (induction k) simp_all

lemma glob_lit:
  "p \<noteq> CHR ''*'' \<Longrightarrow> glob (p # ps) k = (case k of [] \<Rightarrow> False | c # cs \<Rightarrow> p = c \<and> glob ps cs)"
  by (cases k) simp_all

lemma glob_prefix: "glob (redisProductKeyPrefix @ ''*'') k = under_prefix k"
  by (auto simp: redisProductKeyPrefix_def under_prefix_def glob_lit glob_star split: list.splits)

lemma no_fault_at:
  assumes "True \<notin> set (faults s)"
  shows "\<not> fault_at n s"
proof
  assume "fault_at n s"
  then have "n < length (faults s)" and "faults s ! n = True"
    by (simp_all add: fault_at_def)
  then have "True \<in> set (faults s)"
    by (metis nth_mem)
  with assms show False by simp
qed

lemma lookup_listed: "lookup c k = Some e \<Longrightarrow> glob pat k \<Longrightarrow> k \<in> listed pat c"
  by (auto simp: lookup_def listed_def split: option.splits dest: map_of_SomeD)

lemma stale_iff: "stale s k = (ttl_seconds s k \<le> 0)"
  by (auto simp: stale_def)

lemma sweep_exact:
  assumes "True \<notin> set (faults s)"
  shows "lookup (cache (cleanStaleProductKeys s)) k =
     (if under_prefix k \<and> stale s k then None else lookup (cache s) k)"
proof -
  have free: "\<forall>n. \<not> fault_at n s"
    using assms by (simp add: no_fault_at)
  have "lookup (cache (cleanStaleProductKeys s)) k =
      (if k \<in> listed (redisProductKeyPrefix @ ''*'') (cache s) \<and> ttl_seconds s k \<le> 0 then None
       else lookup (cache s) k)"
    by (simp add: cleanStaleProductKeys_def loop_exact [OF free] lookup_tombstone)
  moreover have "lookup (cache s) k = None"
    if "under_prefix k" and "k \<notin> listed (redisProductKeyPrefix @ ''*'') (cache s)"
    using that lookup_listed [of "cache s" k _ "redisProductKeyPrefix @ ''*''"]
    by (cases "lookup (cache s) k") (auto simp: glob_prefix)
  ultimately show ?thesis
    by (auto simp: stale_iff dest: listed_glob simp: glob_prefix)
qed

lemma sweep_only:
  "lookup (cache (cleanStaleProductKeys s)) k = lookup (cache s) k \<or>
   lookup (cache (cleanStaleProductKeys s)) k = None \<and> under_prefix k \<and> stale s k"
proof -
  from loop_any [of s 0] obtain X where
    "X \<subseteq> {k. glob (redisProductKeyPrefix @ ''*'') k \<and> ttl_seconds s k \<le> 0}"
    "cache (cleanStaleProductKeys s) = tombstone X (cache s)"
    by (auto simp: cleanStaleProductKeys_def)
  then show ?thesis
    by (auto simp: lookup_tombstone glob_prefix stale_iff)
qed

lemma positive_not_stale:
  "lookup (cache s) k = Some e \<Longrightarrow> deadline e = Some d \<Longrightarrow> clock s < d \<Longrightarrow> \<not> stale s k"
  by (simp add: stale_def ttl_seconds_def)

text \<open>
  C5, as the claim states it, fails: the pass gives up at a scan that fails, and it does
  not look at the result of a deletion. The key \<^verbatim>\<open>product:1:hits\<close> is under the prefix
  and has no expiration; it is still there after a pass whose scan fails, and after a
  pass in which its DEL fails.
\<close>

theorem sweep_with_failures_leaves_stale_key:
  "under_prefix ''product:1:hits'' \<and> ttl_seconds sweepWorld ''product:1:hits'' = - 1 \<and>
   lookup (cache (cleanStaleProductKeys (sweepWorld\<lparr>faults := [True]\<rparr>))) ''product:1:hits'' =
     Some \<lparr>val = ''3'', deadline = None\<rparr> \<and>
   lookup (cache (cleanStaleProductKeys (sweepWorld\<lparr>faults := [False, False, False, True]\<rparr>)))
       ''product:1:hits'' =
     Some \<lparr>val = ''3'', deadline = None\<rparr>"
  by code_simp

text \<open>
  C5, amended. A pass in which no cache command fails deletes exactly the keys under the
  domain prefix whose ttl-query reports no expiration or a remaining time that is not
  positive, and leaves every other key as it was. Whatever fails, a pass deletes only
  such keys: a key with a positive remaining time, or outside the prefix, is left as it
  was. The pass always ends (\<open>cleanStaleProductKeys\<close> is a total function).
\<close>

theorem sweep_pass:
  "(True \<notin> set (faults s) \<longrightarrow>
      (\<forall>k. lookup (cache (cleanStaleProductKeys s)) k =
         (if under_prefix k \<and> stale s k then None else lookup (cache s) k))) \<and>
   (\<forall>k. lookup (cache (cleanStaleProductKeys s)) k = lookup (cache s) k \<or>
        lookup (cache (cleanStaleProductKeys s)) k = None \<and> under_prefix k \<and> stale s k) \<and>
   (\<forall>k e d. lookup (cache s) k = Some e \<and> deadline e = Some d \<and> clock s < d \<longrightarrow>
        lookup (cache (cleanStaleProductKeys s)) k = Some e)"
proof (intro conjI impI allI)
  fix k assume "True \<notin> set (faults s)"
  then show "lookup (cache (cleanStaleProductKeys s)) k =
         (if under_prefix k \<and> stale s k then None else lookup (cache s) k)"
    by (rule sweep_exact)
next
  fix k show "lookup (cache (cleanStaleProductKeys s)) k = lookup (cache s) k \<or>
        lookup (cache (cleanStaleProductKeys s)) k = None \<and> under_prefix k \<and> stale s k"
    by (rule sweep_only)
next
  fix k e d assume "lookup (cache s) k = Some e \<and> deadline e = Some d \<and> clock s < d"
  with sweep_only [of s k] positive_not_stale [of s k e d]
  show "lookup (cache (cleanStaleProductKeys s)) k = Some e"
    by auto
qed

theorem sweep_pass_witness:
  "True \<notin> set (faults sweepWorld) \<and>
   lookup (cache (cleanStaleProductKeys sweepWorld)) ''product:1'' =
     Some \<lparr>val = ''1,100,Apple'', deadline = Some 30\<rparr> \<and>
   lookup (cache (cleanStaleProductKeys sweepWorld)) ''product:1:hits'' = None \<and>
   lookup (cache (cleanStaleProductKeys sweepWorld)) ''product:2'' = None \<and>
   lookup (cache (cleanStaleProductKeys sweepWorld)) ''session:9'' =
     Some \<lparr>val = ''x'', deadline = None\<rparr>"
proof -
  have nf: "True \<notin> set (faults sweepWorld)"
    by (simp add: sweepWorld_def)
  have pre: "under_prefix ''product:1''" "under_prefix ''product:1:hits''"
    "under_prefix ''product:2''" "\<not> under_prefix ''session:9''"
    by code_simp+
  have st: "\<not> stale sweepWorld ''product:1''" "stale sweepWorld ''product:1:hits''"
    "stale sweepWorld ''product:2''"
    by code_simp+
  have lk: "lookup (cache sweepWorld) ''product:1'' =
      Some \<lparr>val = ''1,100,Apple'', deadline = Some 30\<rparr>"
    "lookup (cache sweepWorld) ''session:9'' = Some \<lparr>val = ''x'', deadline = None\<rparr>"
    by code_simp+
  from sweep_pass [of sweepWorld] nf
  have "\<forall>k. lookup (cache (cleanStaleProductKeys sweepWorld)) k =
      (if under_prefix k \<and> stale sweepWorld k then None else lookup (cache sweepWorld) k)"
    by blast
  with nf pre st lk show ?thesis
    by simp
qed

section \<open>A counter without its expiration\<close>

lemma miss_path:
  assumes "Atoi idStr = Some pid" and "cached cdc s (redisProductKey pid) = None"
  shows "getProductHandler cdc idStr s =
     (let s1 = snd (Get (redisProductKey pid) s); s2 = s1\<lparr>trace := trace s1 @ [DBRead pid]\<rparr>
      in case db s pid of
           None \<Rightarrow> (NotFound ''Product not found'', s2)
         | Some p \<Rightarrow>
             (OK p, Set (redisProductHitsKey pid) (show_int 1) redisProductTTL
                      (Set (redisProductKey pid) (Marshal cdc p) redisProductTTL s2)))"
  using assms Get_cached [of cdc "redisProductKey pid" s]
  by (simp add: getProductHandler_def Let_def case_prod_beta Get_simps split: option.splits)

lemma fetch_db_clock:
  "db (snd (getProductHandler cdc idStr s)) = db s \<and>
   clock (snd (getProductHandler cdc idStr s)) = clock s"
proof (cases "Atoi idStr")
  case None
  then show ?thesis by (simp add: getProductHandler_def)
next
  case (Some pid)
  show ?thesis
  proof (cases "cached cdc s (redisProductKey pid)")
    case None
    show ?thesis
      by (simp add: miss_path [OF Some None] Let_def Set_simps Get_simps split: option.splits)
  next
    case (Some p)
    show ?thesis
      by (simp add: hit_path [OF \<open>Atoi idStr = Some pid\<close> Some] Let_def Expire_simps Incr_simps
          Get_simps)
  qed
qed

lemma under_prefix_hits: "under_prefix (redisProductHitsKey pid)"
  by (simp add: under_prefix_def redisProductHitsKey_def)

lemma under_prefix_key: "under_prefix (redisProductKey pid)"
  by (simp add: under_prefix_def redisProductKey_def)

lemma string2ll_show_1: "string2ll (show_int 1) = Some 1"
  by (simp add: show_int_1 string2ll_1)

text \<open>
  C10. A hit that finds the counter key absent (or logically expired) creates it at 1,
  below the threshold of 2, so no EXPIRE is issued: the counter is left with no
  expiration, and its ttl-query reports no-expiry however much later. The next hit that
  goes through, with the entry still live, brings it to 2 and gives it a full TTL; a
  sweeper pass that goes through deletes it, as a key under the prefix with no
  expiration.
\<close>

theorem orphan_counter_persists:
  assumes atoi: "Atoi idStr = Some pid"
    and get_ok: "\<not> fault_at 0 s"
    and ent: "lookup_live s (redisProductKey pid) = Some e"
    and dec: "Unmarshal cdc (val e) = Some p"
    and incr_ok: "\<not> fault_at 1 s"
    and absent: "lookup_live s (redisProductHitsKey pid) = None"
    and s': "s' = snd (getProductHandler cdc idStr s)"
  shows "lookup (cache s') (redisProductHitsKey pid) = Some \<lparr>val = ''1'', deadline = None\<rparr> \<and>
     trace s' =
       trace s @ [Issued (GET (redisProductKey pid)), Issued (INCR (redisProductHitsKey pid))] \<and>
     (\<forall>d. ttl_seconds (s'\<lparr>clock := clock s + d\<rparr>) (redisProductHitsKey pid) = - 1) \<and>
     (\<forall>d fs. live (clock s + d) e \<and> True \<notin> set (take 4 fs) \<longrightarrow>
        lookup (cache (snd (getProductHandler cdc idStr (s'\<lparr>clock := clock s + d, faults := fs\<rparr>))))
            (redisProductHitsKey pid) =
          Some \<lparr>val = ''2'', deadline = Some (clock s + d + redisProductTTL)\<rparr>) \<and>
     (\<forall>d fs. True \<notin> set fs \<longrightarrow>
        lookup (cache (cleanStaleProductKeys (s'\<lparr>clock := clock s + d, faults := fs\<rparr>)))
            (redisProductHitsKey pid) = None)"
proof -
  let ?key = "redisProductKey pid" and ?hkey = "redisProductHitsKey pid"
  have cnt: "(case lookup_live s ?hkey of None \<Rightarrow> Some 0 | Some ce \<Rightarrow> string2ll (val ce)) = Some 0"
    by (simp add: absent)
  have rng: "(0::int) \<noteq> 2 ^ 63 - 1" by simp
  note h = hit_effect [OF atoi get_ok ent dec incr_ok cnt rng, of 0]
  have hk: "lookup (cache s') ?hkey = Some \<lparr>val = ''1'', deadline = None\<rparr>"
    and kk: "lookup (cache s') ?key = Some e"
    and tr: "trace s' = trace s @ [Issued (GET ?key), Issued (INCR ?hkey)]"
    using h by (simp_all add: s' absent popularThreshold_def show_int_1)
  have ck: "clock s' = clock s"
    by (simp add: s' fetch_db_clock)
  have persist: "ttl_seconds (s'\<lparr>clock := clock s + d\<rparr>) ?hkey = - 1" for d
    by (simp add: ttl_seconds_def hk)
  have later: "lookup (cache (snd (getProductHandler cdc idStr (s'\<lparr>clock := clock s + d, faults := fs\<rparr>))))
        ?hkey = Some \<lparr>val = ''2'', deadline = Some (clock s + d + redisProductTTL)\<rparr>"
    if lv: "live (clock s + d) e" and nf: "True \<notin> set (take 4 fs)" for d fs
  proof -
    let ?w = "s'\<lparr>clock := clock s + d, faults := fs\<rparr>"
    have f: "\<not> fault_at 0 ?w" "\<not> fault_at 1 ?w" "\<not> fault_at 3 ?w"
      using nf nth_mem [of 0 "take 4 fs"] nth_mem [of 1 "take 4 fs"] nth_mem [of 3 "take 4 fs"]
      by (auto simp: fault_at_def)
    have e1: "lookup_live ?w ?key = Some e"
      using kk lv by (simp add: lookup_live_def)
    have c1: "(case lookup_live ?w ?hkey of None \<Rightarrow> Some 0 | Some ce \<Rightarrow> string2ll (val ce)) = Some 1"
      using hk by (simp add: lookup_live_def live_def string2ll_1)
    have r1: "(1::int) \<noteq> 2 ^ 63 - 1" by simp
    from hit_effect [OF atoi f(1) e1 dec f(2) c1 r1, of 0] f(3) show ?thesis
      by (simp add: popularThreshold_def show_int_2)
  qed
  have swept: "lookup (cache (cleanStaleProductKeys (s'\<lparr>clock := clock s + d, faults := fs\<rparr>)))
        ?hkey = None"
    if nf: "True \<notin> set fs" for d fs
  proof -
    let ?w = "s'\<lparr>clock := clock s + d, faults := fs\<rparr>"
    have "True \<notin> set (faults ?w)" using nf by simp
    moreover have "stale ?w ?hkey"
      by (simp add: stale_def ttl_seconds_def hk)
    ultimately show ?thesis
      by (simp add: sweep_exact under_prefix_hits)
  qed
  from hk tr persist later swept show ?thesis
    by blast
qed

theorem orphan_counter_persists_witness:
  "Atoi ''1'' = Some 1 \<and> \<not> fault_at 0 orphanWorld \<and> \<not> fault_at 1 orphanWorld \<and>
   lookup_live orphanWorld (redisProductKey 1) =
     Some \<lparr>val = ''1,100,Apple'', deadline = Some 30\<rparr> \<and>
   lookup_live orphanWorld (redisProductHitsKey 1) = None \<and>
   lookup (cache (snd (getProductHandler line_codec ''1'' orphanWorld))) ''product:1:hits'' =
     Some \<lparr>val = ''1'', deadline = None\<rparr> \<and>
   ttl_seconds ((snd (getProductHandler line_codec ''1'' orphanWorld))\<lparr>clock := 1010\<rparr>)
       ''product:1:hits'' = - 1 \<and>
   lookup (cache (snd (getProductHandler line_codec ''1''
       ((snd (getProductHandler line_codec ''1'' orphanWorld))\<lparr>clock := 15, faults := []\<rparr>))))
       ''product:1:hits'' =
     Some \<lparr>val = ''2'', deadline = Some 45\<rparr> \<and>
   lookup (cache (cleanStaleProductKeys
       ((snd (getProductHandler line_codec ''1'' orphanWorld))\<lparr>clock := 15, faults := []\<rparr>)))
       ''product:1:hits'' = None"
proof -
  let ?e = "\<lparr>val = ''1,100,Apple'', deadline = Some 30\<rparr>"
  let ?s' = "snd (getProductHandler line_codec ''1'' orphanWorld)"
  have f: "\<not> fault_at 0 orphanWorld" "\<not> fault_at 1 orphanWorld"
    by (simp_all add: fault_at_def orphanWorld_def)
  have ent: "lookup_live orphanWorld (redisProductKey 1) = Some ?e"
    by (simp add: key_1 lookup_live_def lookup_def live_def orphanWorld_def)
  have dec: "Unmarshal line_codec (val ?e) = Some \<lparr>ID = 1, Name = ''Apple'', Price = 100\<rparr>"
    by (simp add: unmarshal_apple)
  have absent: "lookup_live orphanWorld (redisProductHitsKey 1) = None"
    by (simp add: hits_key_1 lookup_live_def lookup_def orphanWorld_def)
  have ck: "clock orphanWorld = 10"
    by (simp add: orphanWorld_def)
  note t = orphan_counter_persists [OF Atoi_1 f(1) ent dec f(2) absent refl]
  from t have a: "lookup (cache ?s') (redisProductHitsKey 1) = Some \<lparr>val = ''1'', deadline = None\<rparr>"
    by blast
  from t have "\<forall>d. ttl_seconds (?s'\<lparr>clock := clock orphanWorld + d\<rparr>) (redisProductHitsKey 1) = - 1"
    by blast
  then have b: "ttl_seconds (?s'\<lparr>clock := clock orphanWorld + 1000\<rparr>) (redisProductHitsKey 1) = - 1"
    by (rule spec)
  have lv: "live (clock orphanWorld + 5) ?e \<and> True \<notin> set (take 4 ([]::bool list))"
    by (simp add: live_def ck)
  from t have "\<forall>d fs. live (clock orphanWorld + d) ?e \<and> True \<notin> set (take 4 fs) \<longrightarrow>
      lookup (cache (snd (getProductHandler line_codec ''1''
          (?s'\<lparr>clock := clock orphanWorld + d, faults := fs\<rparr>)))) (redisProductHitsKey 1) =
        Some \<lparr>val = ''2'', deadline = Some (clock orphanWorld + d + redisProductTTL)\<rparr>"
    by blast
  with lv have c: "lookup (cache (snd (getProductHandler line_codec ''1''
          (?s'\<lparr>clock := clock orphanWorld + 5, faults := []\<rparr>)))) (redisProductHitsKey 1) =
        Some \<lparr>val = ''2'', deadline = Some (clock orphanWorld + 5 + redisProductTTL)\<rparr>"
    by blast
  from t have "\<forall>d fs. True \<notin> set fs \<longrightarrow>
      lookup (cache (cleanStaleProductKeys (?s'\<lparr>clock := clock orphanWorld + d, faults := fs\<rparr>)))
        (redisProductHitsKey 1) = None"
    by blast
  then have d: "lookup (cache (cleanStaleProductKeys
        (?s'\<lparr>clock := clock orphanWorld + 5, faults := []\<rparr>))) (redisProductHitsKey 1) = None"
    by simp
  from a b c d Atoi_1 f ent absent show ?thesis
    by (simp add: ck hits_key_1 redisProductTTL_def)
qed

section \<open>Reads without a write in between\<close>










end
